theory Spec2Isabelle
  imports
    Main
    "HOL-Library.Multiset"
    "HOL-Library.Signed_Division"
begin

section \<open>Data model (scheduler.h)\<close>

text \<open>
  C \<open>int\<close> values are modelled as \<open>int\<close>. Where the source adds or subtracts two
  values that are not both known to be small, the 32-bit result is written out with
  \<open>wrap32\<close>; \<open>int32\<close> says that a value is representable in a C \<open>int\<close>.
  The C operators \<open>%\<close> and \<open>/\<close> truncate towards zero: they are \<open>smod\<close> and \<open>sdiv\<close>.
\<close>

definition MAX_TASKS :: int where "MAX_TASKS = 500"
definition MAX_SLOTS :: int where "MAX_SLOTS = 336"
definition MAX_NAME_LEN :: nat where "MAX_NAME_LEN = 128"
definition MAX_ERROR_LEN :: nat where "MAX_ERROR_LEN = 256"
definition SLOTS_PER_DAY :: int where "SLOTS_PER_DAY = 48"

definition PRIORITY_REGULAR_STUDY :: int where "PRIORITY_REGULAR_STUDY = 50"

definition int32 :: "int \<Rightarrow> bool" where
  "int32 x = (- (2 ^ 31) \<le> x \<and> x < 2 ^ 31)"

definition wrap32 :: "int \<Rightarrow> int" where
  "wrap32 x = (x + 2 ^ 31) mod 2 ^ 32 - 2 ^ 31"

datatype TaskType =
    TASK_UNIVERSITY | TASK_STUDY | TASK_REVISION | TASK_PRACTICE | TASK_ASSIGNMENT
  | TASK_LAB_WORK | TASK_DEEP_WORK | TASK_BREAK | TASK_FREE_TIME | TASK_SLEEP
  | TASK_WAKE_ROUTINE | TASK_BREAKFAST | TASK_LUNCH | TASK_DINNER

text \<open>
  \<open>PreferredEnergy\<close> is a C enum that the input parser fills by casting an arbitrary
  integer, so the field is an \<open>int\<close> and the four enumerators are constants.
\<close>

definition ENERGY_ANY :: int where "ENERGY_ANY = 0"
definition ENERGY_PREFER_LOW :: int where "ENERGY_PREFER_LOW = 1"
definition ENERGY_PREFER_MEDIUM :: int where "ENERGY_PREFER_MEDIUM = 2"
definition ENERGY_PREFER_PEAK :: int where "ENERGY_PREFER_PEAK = 3"

text \<open>
  The struct \<open>Task\<close>. Its fields \<open>id\<close>, \<open>name\<close>, \<open>type\<close> and \<open>is_fixed\<close> are
  \<open>id_task\<close>, \<open>name_task\<close>, \<open>type_task\<close> and \<open>is_fixed_task\<close> here (\<open>id\<close> is a HOL
  constant, and \<open>is_fixed\<close> is also a field of \<open>TimeSlot\<close>).
\<close>

record Task =
  id_task :: int
  name_task :: string
  type_task :: TaskType
  duration_slots :: int
  priority :: int
  deadline_slot :: int
  is_fixed_task :: bool
  preferred_energy :: int

record TimeSlot =
  slot_index :: int
  task_id :: int
  energy_level :: int
  is_fixed :: bool

text \<open>
  The struct \<open>Timeline\<close>: \<open>slots\<close> is the array of \<open>MAX_SLOTS\<close> entries, of which
  the first \<open>num_slots\<close> are in use.
\<close>

record Timeline =
  slots :: "TimeSlot list"
  num_slots :: int
  success :: bool
  error_message :: string

section \<open>Energy levels\<close>

definition slot_to_hour :: "int \<Rightarrow> int" where
  "slot_to_hour slot_index' = (slot_index' smod SLOTS_PER_DAY) sdiv 2"

definition get_energy_level :: "int \<Rightarrow> int" where
  "get_energy_level slot_index' =
     (let hour = slot_to_hour slot_index' in
      if (hour \<ge> 8 \<and> hour < 10) \<or> (hour \<ge> 16 \<and> hour < 18) then 9
      else if (hour \<ge> 6 \<and> hour < 8) \<or> (hour \<ge> 10 \<and> hour < 12) \<or>
              (hour \<ge> 14 \<and> hour < 16) \<or> (hour \<ge> 18 \<and> hour < 20) then 6
      else if (hour \<ge> 12 \<and> hour < 14) \<or> hour \<ge> 20 \<or> hour < 6 then 3
      else 5)"

definition is_peak_energy_period :: "int \<Rightarrow> bool" where
  "is_peak_energy_period slot_index' =
     (let hour = slot_to_hour slot_index' in
      (hour \<ge> 8 \<and> hour < 10) \<or> (hour \<ge> 16 \<and> hour < 18))"

definition is_medium_energy_period :: "int \<Rightarrow> bool" where
  "is_medium_energy_period slot_index' =
     (let hour = slot_to_hour slot_index' in
      (hour \<ge> 6 \<and> hour < 8) \<or> (hour \<ge> 10 \<and> hour < 12) \<or>
      (hour \<ge> 14 \<and> hour < 16) \<or> (hour \<ge> 18 \<and> hour < 20))"

definition is_low_energy_period :: "int \<Rightarrow> bool" where
  "is_low_energy_period slot_index' =
     (let hour = slot_to_hour slot_index' in
      (hour \<ge> 12 \<and> hour < 14) \<or> hour \<ge> 20 \<or> hour < 6)"

section \<open>Initialisation\<close>

definition task_init :: Task where
  "task_init =
     \<lparr> id_task = -1, name_task = [], type_task = TASK_STUDY, duration_slots = 1,
       priority = PRIORITY_REGULAR_STUDY, deadline_slot = -1, is_fixed_task = False,
       preferred_energy = ENERGY_ANY \<rparr>"

definition timeslot_init :: "int \<Rightarrow> TimeSlot" where
  "timeslot_init index =
     \<lparr> slot_index = index, task_id = -1, energy_level = get_energy_level index,
       is_fixed = False \<rparr>"

text \<open>
  \<open>timeline_init\<close> writes the first \<open>total_slots\<close> entries of the array. The entries
  behind them are not initialised by the source and never read; the model gives the
  array \<open>max total_slots 0\<close> entries. For the only call in the program, with 7 days, that
  is the whole array of \<open>MAX_SLOTS\<close> entries.
\<close>

definition timeline_init :: "int \<Rightarrow> Timeline" where
  "timeline_init num_days =
     (let total_slots = wrap32 (num_days * SLOTS_PER_DAY);
          total_slots = (if total_slots > MAX_SLOTS then MAX_SLOTS else total_slots)
      in \<lparr> slots = map timeslot_init [0 .. total_slots - 1],
           num_slots = total_slots, success = False, error_message = [] \<rparr>)"

text \<open>
  \<open>malloc\<close> can fail. The three allocations of \<open>optimize_schedule\<close> take their outcome
  from a record, so that each \<open>NULL\<close> check of the source is a branch of the model.
\<close>

record Allocs =
  timeline_alloc :: bool
  task_array_alloc :: bool
  placements_alloc :: bool

definition timeline_create :: "bool \<Rightarrow> Timeline option" where
  "timeline_create ok = (if ok then Some (timeline_init 7) else None)"

definition task_array_create :: "bool \<Rightarrow> int \<Rightarrow> Task list option" where
  "task_array_create ok count' =
     (if count' \<le> 0 \<or> count' > MAX_TASKS then None
      else if ok then Some (replicate (nat count') task_init) else None)"

section \<open>Priority comparison\<close>

text \<open>
  The comparator handed to \<open>qsort\<close>. The subtraction of two arbitrary C \<open>int\<close>s can
  leave the 32-bit range, so its wrap-around is written out.
\<close>

definition task_compare_priority :: "Task \<Rightarrow> Task \<Rightarrow> int" where
  "task_compare_priority task_a task_b = wrap32 (priority task_b - priority task_a)"

section \<open>Constraint checking\<close>

definition is_slot_available :: "Timeline \<Rightarrow> int \<Rightarrow> bool" where
  "is_slot_available timeline slot_index' =
     (if slot_index' < 0 \<or> slot_index' \<ge> num_slots timeline then False
      else task_id (slots timeline ! nat slot_index') = -1 \<and>
           \<not> is_fixed (slots timeline ! nat slot_index'))"

text \<open>
  The loop of \<open>can_place_task\<close> over \<open>i\<close>. It leaves at the first slot that is not
  available, so \<open>start_slot + i\<close> never exceeds \<open>num_slots\<close> when it is computed.
\<close>

function required_slots_available :: "Timeline \<Rightarrow> int \<Rightarrow> int \<Rightarrow> int \<Rightarrow> bool" where
  "required_slots_available timeline start_slot duration i =
     (if i < duration then
        (if \<not> is_slot_available timeline (start_slot + i) then False
         else required_slots_available timeline start_slot duration (i + 1))
      else True)"
  by pat_completeness auto
termination
  by (relation "measure (\<lambda>(timeline, start_slot, duration, i). nat (duration - i))") auto

declare required_slots_available.simps [simp del]

definition can_place_task :: "Timeline \<Rightarrow> Task \<Rightarrow> int \<Rightarrow> bool" where
  "can_place_task timeline task start_slot =
     (if start_slot < 0 \<or>
         wrap32 (start_slot + duration_slots task) > num_slots timeline then False
      else if deadline_slot task \<ge> 0 \<and>
              wrap32 (start_slot + duration_slots task) > deadline_slot task then False
      else required_slots_available timeline start_slot (duration_slots task) 0)"

text \<open>
  \<open>place_task\<close> and \<open>remove_task\<close> write \<open>task_id\<close> fields through an index that the
  source does not check. The model checks it: a write outside \<open>[0, num_slots)\<close>, or
  outside the array, gives \<open>None\<close>.
\<close>

definition write_task_id :: "Timeline \<Rightarrow> int \<Rightarrow> int \<Rightarrow> Timeline option" where
  "write_task_id timeline i v =
     (if 0 \<le> i \<and> i < num_slots timeline \<and> nat i < length (slots timeline)
      then Some (timeline\<lparr>slots := (slots timeline)
                   [nat i := (slots timeline ! nat i)\<lparr>task_id := v\<rparr>]\<rparr>)
      else None)"

function write_task_ids :: "Timeline \<Rightarrow> int \<Rightarrow> int \<Rightarrow> int \<Rightarrow> int \<Rightarrow> Timeline option" where
  "write_task_ids timeline start_slot duration v i =
     (if i < duration then
        (case write_task_id timeline (start_slot + i) v of
           None \<Rightarrow> None
         | Some timeline' \<Rightarrow> write_task_ids timeline' start_slot duration v (i + 1))
      else Some timeline)"
  by pat_completeness auto
termination
  by (relation "measure (\<lambda>(timeline, start_slot, duration, v, i). nat (duration - i))") auto

declare write_task_ids.simps [simp del]

definition place_task :: "Timeline \<Rightarrow> Task \<Rightarrow> int \<Rightarrow> Timeline option" where
  "place_task timeline task start_slot =
     write_task_ids timeline start_slot (duration_slots task) (id_task task) 0"

definition remove_task :: "Timeline \<Rightarrow> Task \<Rightarrow> int \<Rightarrow> Timeline option" where
  "remove_task timeline task start_slot =
     write_task_ids timeline start_slot (duration_slots task) (-1) 0"

definition calculate_energy_score :: "Task \<Rightarrow> int \<Rightarrow> int" where
  "calculate_energy_score task slot_index' =
     (let score1 =
        (if type_task task = TASK_STUDY \<or> type_task task = TASK_DEEP_WORK then
           (if is_peak_energy_period slot_index' then 10
            else if is_medium_energy_period slot_index' then 5 else 0)
         else if type_task task = TASK_PRACTICE \<or> type_task task = TASK_REVISION then
           (if is_peak_energy_period slot_index' then 7
            else if is_medium_energy_period slot_index' then 8 else 0)
         else if type_task task = TASK_BREAK \<or> type_task task = TASK_FREE_TIME then
           (if is_low_energy_period slot_index' then 10 else 0)
         else 0);
          score2 =
        (if preferred_energy task \<noteq> ENERGY_ANY then
           (if preferred_energy task = ENERGY_PREFER_PEAK \<and>
               is_peak_energy_period slot_index' then 5
            else if preferred_energy task = ENERGY_PREFER_MEDIUM \<and>
               is_medium_energy_period slot_index' then 5
            else if preferred_energy task = ENERGY_PREFER_LOW \<and>
               is_low_energy_period slot_index' then 5
            else 0)
         else 0)
      in score1 + score2)"

section \<open>Backtracking\<close>

record SlotScore =
  slot :: int
  score :: int

text \<open>First pass of \<open>backtrack\<close>: the valid start slots, in ascending order, with scores.\<close>

definition collect_candidates :: "Timeline \<Rightarrow> Task \<Rightarrow> SlotScore list" where
  "collect_candidates timeline task =
     map (\<lambda>s. \<lparr> slot = s, score = calculate_energy_score task s \<rparr>)
       (filter (can_place_task timeline task) [0 .. num_slots timeline - 1])"

text \<open>
  The bubble sort of \<open>backtrack\<close>, on the array of the candidates. \<open>bubble_inner\<close> is the
  inner loop from \<open>j\<close> on, \<open>bubble_sort\<close> the outer loop from \<open>i\<close> on.
\<close>

function bubble_inner :: "SlotScore list \<Rightarrow> int \<Rightarrow> int \<Rightarrow> int \<Rightarrow> SlotScore list" where
  "bubble_inner candidates num_candidates i j =
     (if j < num_candidates - i - 1 then
        bubble_inner
          (if score (candidates ! nat j) < score (candidates ! nat (j + 1))
           then candidates[nat j := candidates ! nat (j + 1), nat (j + 1) := candidates ! nat j]
           else candidates)
          num_candidates i (j + 1)
      else candidates)"
  by pat_completeness auto
termination
  by (relation "measure (\<lambda>(candidates, num_candidates, i, j). nat (num_candidates - i - 1 - j))")
    auto

declare bubble_inner.simps [simp del]

function bubble_sort :: "SlotScore list \<Rightarrow> int \<Rightarrow> int \<Rightarrow> SlotScore list" where
  "bubble_sort candidates num_candidates i =
     (if i < num_candidates - 1
      then bubble_sort (bubble_inner candidates num_candidates i 0) num_candidates (i + 1)
      else candidates)"
  by pat_completeness auto
termination
  by (relation "measure (\<lambda>(candidates, num_candidates, i). nat (num_candidates - i))") auto

declare bubble_sort.simps [simp del]

definition sorted_candidates :: "Timeline \<Rightarrow> Task \<Rightarrow> SlotScore list" where
  "sorted_candidates timeline task =
     (let candidates = collect_candidates timeline task
      in bubble_sort candidates (int (length candidates)) 0)"

text \<open>
  The result of a search: whether a solution was found, the timeline and the
  placements array as the call leaves them; \<open>None\<close> when an index was out of bounds.
\<close>

type_synonym search_result = "bool \<times> Timeline \<times> int list"

text \<open>
  The last loop of \<open>backtrack\<close>, over the sorted candidates. \<open>recurse\<close> is the
  recursive call \<open>backtrack(timeline, tasks, num_tasks, task_index + 1, placements)\<close>,
  and \<open>task_index\<close> the position written in \<open>placements\<close>.
\<close>

fun try_candidates ::
  "(Timeline \<Rightarrow> int list \<Rightarrow> search_result option) \<Rightarrow> Timeline \<Rightarrow> Task \<Rightarrow> nat \<Rightarrow>
   int list \<Rightarrow> SlotScore list \<Rightarrow> search_result option" where
  "try_candidates recurse timeline task task_index placements [] =
     Some (False, timeline, placements)"
| "try_candidates recurse timeline task task_index placements (c # candidates) =
     (case place_task timeline task (slot c) of
        None \<Rightarrow> None
      | Some timeline1 \<Rightarrow>
          (case recurse timeline1 (placements[task_index := slot c]) of
             None \<Rightarrow> None
           | Some (found, timeline2, placements2) \<Rightarrow>
               if found then Some (True, timeline2, placements2)
               else (case remove_task timeline2 task (slot c) of
                       None \<Rightarrow> None
                     | Some timeline3 \<Rightarrow>
                         try_candidates recurse timeline3 task task_index
                           (placements2[task_index := -1]) candidates)))"

text \<open>
  \<open>backtrack\<close>. The array \<open>tasks\<close> holds \<open>num_tasks\<close> tasks in every call that
  \<open>optimize_schedule\<close> starts; the read of \<open>tasks[task_index]\<close> is checked all the same.
  The \<open>placements\<close> array is only ever written.
\<close>

function backtrack ::
  "Timeline \<Rightarrow> Task list \<Rightarrow> int \<Rightarrow> int \<Rightarrow> int list \<Rightarrow> search_result option" where
  "backtrack timeline tasks num_tasks task_index placements =
     (if task_index \<ge> num_tasks then Some (True, timeline, placements)
      else if task_index < 0 \<or> nat task_index \<ge> length tasks then None
      else
        let task = tasks ! nat task_index
        in if is_fixed_task task
           then backtrack timeline tasks num_tasks (task_index + 1) placements
           else try_candidates
                  (\<lambda>timeline1 placements1.
                     backtrack timeline1 tasks num_tasks (task_index + 1) placements1)
                  timeline task (nat task_index) placements (sorted_candidates timeline task))"
  by pat_completeness auto
termination
  by (relation "measure (\<lambda>(timeline, tasks, num_tasks, task_index, placements).
        nat (num_tasks - task_index))") auto

declare backtrack.simps [simp del]

section \<open>Main optimisation function\<close>

datatype error = NULL_RESULT | OUT_OF_BOUNDS

text \<open>\<open>printf\<close>'s \<open>%d\<close>, and \<open>snprintf\<close> into a buffer of \<open>n\<close> bytes.\<close>

definition digit_char :: "nat \<Rightarrow> char" where
  "digit_char d = char_of (48 + d)"

function decimal_digits :: "nat \<Rightarrow> string" where
  "decimal_digits n =
     (if n < 10 then [digit_char n] else decimal_digits (n div 10) @ [digit_char (n mod 10)])"
  by pat_completeness auto
termination
  by (relation "measure (\<lambda>n. n)") auto

declare decimal_digits.simps [simp del]

definition format_int :: "int \<Rightarrow> string" where
  "format_int v = (if v < 0 then CHR ''-'' # decimal_digits (nat (- v))
                   else decimal_digits (nat v))"

definition snprintf :: "nat \<Rightarrow> string \<Rightarrow> string" where
  "snprintf n s = take (n - 1) s"

text \<open>
  The loop that applies the fixed slots, over the descriptors it reads. The write is
  guarded by the source itself.
\<close>

fun apply_fixed_slots :: "Timeline \<Rightarrow> TimeSlot list \<Rightarrow> Timeline" where
  "apply_fixed_slots timeline [] = timeline"
| "apply_fixed_slots timeline (f # fixed_slots) =
     (let idx = slot_index f
      in apply_fixed_slots
           (if idx \<ge> 0 \<and> idx < num_slots timeline
            then timeline\<lparr>slots := (slots timeline)
                   [nat idx := (slots timeline ! nat idx)
                      \<lparr>task_id := task_id f, is_fixed := True\<rparr>]\<rparr>
            else timeline)
           fixed_slots)"

text \<open>
  An input array is a pointer and a count: \<open>None\<close> is the \<open>NULL\<close> pointer, and reading
  \<open>count\<close> elements from an array that has fewer is out of bounds.
\<close>

definition read_array :: "'a list \<Rightarrow> int \<Rightarrow> error + 'a list" where
  "read_array xs count' =
     (if nat count' \<le> length xs then Inr (take (nat count') xs) else Inl OUT_OF_BOUNDS)"

definition fixed_slots_applied ::
  "Timeline \<Rightarrow> TimeSlot list option \<Rightarrow> int \<Rightarrow> error + Timeline" where
  "fixed_slots_applied timeline fixed_slots num_fixed =
     (case fixed_slots of
        None \<Rightarrow> Inr timeline
      | Some fs \<Rightarrow>
          if num_fixed > 0 then
            (case read_array fs num_fixed of
               Inl e \<Rightarrow> Inl e
             | Inr descriptors \<Rightarrow> Inr (apply_fixed_slots timeline descriptors))
          else Inr timeline)"

text \<open>
  \<open>qsort\<close> belongs to the C library, not to this program: it is a parameter of the
  model. \<open>run_search\<close> is the part of \<open>optimize_schedule\<close> from the sorted copy to the
  call of \<open>backtrack\<close>; it returns what \<open>backtrack\<close> returns.
\<close>

type_synonym qsort_fn = "(Task \<Rightarrow> Task \<Rightarrow> int) \<Rightarrow> Task list \<Rightarrow> Task list"

definition sorted_tasks_of :: "qsort_fn \<Rightarrow> Task list \<Rightarrow> Task list" where
  "sorted_tasks_of qsort tasks = qsort task_compare_priority tasks"

definition run_search ::
  "qsort_fn \<Rightarrow> Timeline \<Rightarrow> Task list \<Rightarrow> int \<Rightarrow> search_result option" where
  "run_search qsort timeline tasks num_tasks =
     backtrack timeline (sorted_tasks_of qsort tasks) num_tasks 0
       (replicate (nat num_tasks) (-1))"

definition NO_SOLUTION_message :: string where
  "NO_SOLUTION_message = ''NO_SOLUTION: Cannot find valid placement for all tasks''"

definition optimize_schedule ::
  "qsort_fn \<Rightarrow> Allocs \<Rightarrow> Task list option \<Rightarrow> int \<Rightarrow> TimeSlot list option \<Rightarrow> int \<Rightarrow>
   error + Timeline" where
  "optimize_schedule qsort al tasks num_tasks fixed_slots num_fixed =
     (if num_tasks < 0 \<or> num_tasks > MAX_TASKS then
        (case timeline_create (timeline_alloc al) of
           None \<Rightarrow> Inl NULL_RESULT
         | Some timeline \<Rightarrow>
             Inr (timeline\<lparr>success := False,
                    error_message := snprintf MAX_ERROR_LEN
                      (''Invalid number of tasks: '' @ format_int num_tasks)\<rparr>))
      else
        (case timeline_create (timeline_alloc al) of
           None \<Rightarrow> Inl NULL_RESULT
         | Some timeline0 \<Rightarrow>
        (case fixed_slots_applied timeline0 fixed_slots num_fixed of
           Inl e \<Rightarrow> Inl e
         | Inr timeline \<Rightarrow>
        (case tasks of
           None \<Rightarrow> Inr (timeline\<lparr>success := True\<rparr>)
         | Some ts \<Rightarrow>
        if num_tasks = 0 then Inr (timeline\<lparr>success := True\<rparr>)
        else
        (case task_array_create (task_array_alloc al) num_tasks of
           None \<Rightarrow>
             Inr (timeline\<lparr>success := False,
                    error_message := snprintf MAX_ERROR_LEN ''Memory allocation failed''\<rparr>)
         | Some sorted_tasks0 \<Rightarrow>
        (case read_array ts num_tasks of
           Inl e \<Rightarrow> Inl e
         | Inr copied \<Rightarrow>
        if \<not> placements_alloc al then
             Inr (timeline\<lparr>success := False,
                    error_message := snprintf MAX_ERROR_LEN ''Memory allocation failed''\<rparr>)
        else
        (case run_search qsort timeline copied num_tasks of
           None \<Rightarrow> Inl OUT_OF_BOUNDS
         | Some (found, timeline', placements) \<Rightarrow>
             if found then Inr (timeline'\<lparr>success := True\<rparr>)
             else Inr (timeline'\<lparr>success := False,
                         error_message :=
                           snprintf MAX_ERROR_LEN NO_SOLUTION_message\<rparr>))))))))"

section \<open>JSON output and parsing (json_output.c)\<close>

text \<open>
  A C string is the list of its bytes before the terminating NUL. The characters that
  the source names: the double quote is \<open>CHR 0x22\<close>, the backslash \<open>CHR 0x5C\<close>, and
  \<open>\b\<close>, \<open>\t\<close>, \<open>\n\<close>, \<open>\f\<close>, \<open>\r\<close> are the bytes 8, 9, 10, 12 and 13. The buffer of
  \<open>timeline_to_json\<close> grows as needed; its allocations are taken to succeed.
\<close>

definition hex_digit :: "nat \<Rightarrow> char" where
  "hex_digit d = ''0123456789abcdef'' ! d"

text \<open>What the second loop of \<open>json_escape_string\<close> writes for one character.\<close>

definition json_escape_char :: "char \<Rightarrow> string" where
  "json_escape_char c =
     (if c = CHR 0x22 then [CHR 0x5C, CHR 0x22]
      else if c = CHR 0x5C then [CHR 0x5C, CHR 0x5C]
      else if c = CHR 0x08 then [CHR 0x5C, CHR ''b'']
      else if c = CHR 0x0C then [CHR 0x5C, CHR ''f'']
      else if c = CHR 0x0A then [CHR 0x5C, CHR ''n'']
      else if c = CHR 0x0D then [CHR 0x5C, CHR ''r'']
      else if c = CHR 0x09 then [CHR 0x5C, CHR ''t'']
      else if (of_char c :: nat) < 32
        then [CHR 0x5C, CHR ''u'', CHR ''0'', CHR ''0'',
              hex_digit (of_char c div 16), hex_digit (of_char c mod 16)]
      else [c])"

definition json_escape_string :: "string option \<Rightarrow> string" where
  "json_escape_string str =
     (case str of
        None \<Rightarrow> [CHR 0x22, CHR 0x22]
      | Some s \<Rightarrow> [CHR 0x22] @ concat (map json_escape_char s) @ [CHR 0x22])"

definition bool_text :: "bool \<Rightarrow> string" where
  "bool_text b = (if b then ''true'' else ''false'')"

definition json_field :: "string \<Rightarrow> string" where
  "json_field key = [CHR 0x22] @ key @ [CHR 0x22] @ '': ''"

definition slot_to_json :: "TimeSlot \<Rightarrow> bool \<Rightarrow> string" where
  "slot_to_json slot' has_next =
     ''    {'' @ [CHR 0x0A] @
     ''      '' @ json_field ''slot_index'' @ format_int (slot_index slot') @ '','' @ [CHR 0x0A] @
     ''      '' @ json_field ''task_id'' @ format_int (task_id slot') @ '','' @ [CHR 0x0A] @
     ''      '' @ json_field ''energy_level'' @ format_int (energy_level slot') @ '','' @ [CHR 0x0A] @
     ''      '' @ json_field ''is_fixed'' @ bool_text (is_fixed slot') @ [CHR 0x0A] @
     ''    }'' @ (if has_next then '','' else []) @ [CHR 0x0A]"

definition timeline_to_json :: "Timeline option \<Rightarrow> string option" where
  "timeline_to_json timeline =
     (case timeline of
        None \<Rightarrow> None
      | Some t \<Rightarrow>
          Some (''{'' @ [CHR 0x0A] @
            ''  '' @ json_field ''success'' @ bool_text (success t) @ '','' @ [CHR 0x0A] @
            ''  '' @ json_field ''error_message'' @
                json_escape_string (Some (error_message t)) @ '','' @ [CHR 0x0A] @
            ''  '' @ json_field ''num_slots'' @ format_int (num_slots t) @ '','' @ [CHR 0x0A] @
            ''  '' @ json_field ''slots'' @ ''['' @ [CHR 0x0A] @
            concat (map (\<lambda>i. slot_to_json (slots t ! nat i) (i < num_slots t - 1))
                      [0 .. num_slots t - 1]) @
            ''  ]'' @ [CHR 0x0A] @
            ''}'' @ [CHR 0x0A]))"

definition isspace :: "char \<Rightarrow> bool" where
  "isspace c = (c = CHR 0x20 \<or> c = CHR 0x09 \<or> c = CHR 0x0A \<or> c = CHR 0x0B \<or>
                c = CHR 0x0C \<or> c = CHR 0x0D)"

definition skip_whitespace :: "string \<Rightarrow> string" where
  "skip_whitespace p = dropWhile isspace p"

text \<open>The character that \<open>parse_string\<close> stores for the character after a backslash.\<close>

definition unescape_char :: "char \<Rightarrow> char" where
  "unescape_char c =
     (if c = CHR 0x22 then CHR 0x22
      else if c = CHR 0x5C then CHR 0x5C
      else if c = CHR ''b'' then CHR 0x08
      else if c = CHR ''f'' then CHR 0x0C
      else if c = CHR ''n'' then CHR 0x0A
      else if c = CHR ''r'' then CHR 0x0D
      else if c = CHR ''t'' then CHR 0x09
      else c)"

text \<open>
  The test \<open>i < max_len - 1\<close> of \<open>parse_string\<close>. The subtraction is in \<open>size_t\<close>: for
  \<open>max_len = 0\<close> it gives the largest value of the type, which no index reaches.
\<close>

definition dest_has_room :: "nat \<Rightarrow> nat \<Rightarrow> bool" where
  "dest_has_room i max_len = (max_len = 0 \<or> i < max_len - 1)"

text \<open>
  The loop of \<open>parse_string\<close> and what follows it: \<open>dest\<close> is what has been stored.
  The result is the rest of the input and the string stored. A backslash as the last
  character makes the source step over the terminating NUL.
\<close>

fun parse_string_loop :: "string \<Rightarrow> string \<Rightarrow> nat \<Rightarrow> error + (string \<times> string)" where
  "parse_string_loop [] dest max_len = Inr ([], dest)"
| "parse_string_loop (c # p) dest max_len =
     (if c = CHR 0x22 then Inr (p, dest)
      else if \<not> dest_has_room (length dest) max_len then Inr (c # p, dest)
      else if c = CHR 0x5C then
        (case p of
           [] \<Rightarrow> Inl OUT_OF_BOUNDS
         | e # p' \<Rightarrow> parse_string_loop p' (dest @ [unescape_char e]) max_len)
      else parse_string_loop p (dest @ [c]) max_len)"

definition parse_string :: "string \<Rightarrow> nat \<Rightarrow> error + (string \<times> string)" where
  "parse_string p max_len =
     (case skip_whitespace p of
        [] \<Rightarrow> Inl NULL_RESULT
      | c # p' \<Rightarrow>
          if c \<noteq> CHR 0x22 then Inl NULL_RESULT
          else parse_string_loop p' [] max_len)"

fun strstr :: "string \<Rightarrow> string \<Rightarrow> string option" where
  "strstr [] needle = (if needle = [] then Some [] else None)"
| "strstr (c # haystack) needle =
     (if take (length needle) (c # haystack) = needle then Some (c # haystack)
      else strstr haystack needle)"

definition find_key :: "string \<Rightarrow> string \<Rightarrow> string option" where
  "find_key p key =
     (let search = snprintf 256 ([CHR 0x22] @ key @ [CHR 0x22])
      in case strstr p search of
           None \<Rightarrow> None
         | Some found \<Rightarrow>
             (let found = skip_whitespace (drop (length search) found);
                  found = (case found of c # rest \<Rightarrow> if c = CHR '':'' then rest else found
                           | [] \<Rightarrow> found)
              in Some (skip_whitespace found)))"

text \<open>The seven characters that \<open>json_escape_string\<close> writes as a backslash and one character.\<close>

definition two_char_escaped :: "char \<Rightarrow> bool" where
  "two_char_escaped c = (c = CHR 0x22 \<or> c = CHR 0x5C \<or> c = CHR 0x08 \<or> c = CHR 0x0C \<or>
     c = CHR 0x0A \<or> c = CHR 0x0D \<or> c = CHR 0x09)"

section \<open>Notions used in the statements\<close>

subsection \<open>Well-formed calls\<close>

text \<open>
  A timeline is well formed when between 1 and \<open>MAX_SLOTS\<close> slots are in use and the
  array holds them. Every field of a \<open>Task\<close> is a C \<open>int\<close>.
\<close>

definition timeline_ok :: "Timeline \<Rightarrow> bool" where
  "timeline_ok tml = (0 < num_slots tml \<and> num_slots tml \<le> MAX_SLOTS \<and>
     nat (num_slots tml) \<le> length (slots tml))"

definition task_int32 :: "Task \<Rightarrow> bool" where
  "task_int32 t = (int32 (id_task t) \<and> int32 (duration_slots t) \<and> int32 (priority t) \<and>
     int32 (deadline_slot t) \<and> int32 (preferred_energy t))"

text \<open>
  The only thing the model asks of the library's \<open>qsort\<close> in general is that it
  permutes the array. \<open>qsort_sorts_stably\<close> is the contract of a stable sort: if the
  comparator is a consistent ordering of the elements, the result is a permutation in
  that order, and elements that compare equal keep the order they had in the input.
\<close>

definition qsort_permutes :: "qsort_fn \<Rightarrow> bool" where
  "qsort_permutes qsort = (\<forall>cmp xs. mset (qsort cmp xs) = mset xs)"



text \<open>
  The descriptors and the tasks that \<open>optimize_schedule\<close> reads from its arguments,
  and the conditions under which the reads are within the arrays.
\<close>

definition fixed_descriptors :: "TimeSlot list option \<Rightarrow> int \<Rightarrow> TimeSlot list" where
  "fixed_descriptors fixed_slots num_fixed =
     (case fixed_slots of None \<Rightarrow> []
      | Some fs \<Rightarrow> if num_fixed > 0 then take (nat num_fixed) fs else [])"

definition input_tasks :: "Task list option \<Rightarrow> int \<Rightarrow> Task list" where
  "input_tasks tasks num_tasks =
     (case tasks of None \<Rightarrow> [] | Some ts \<Rightarrow> take (nat num_tasks) ts)"

definition inputs_ok ::
  "qsort_fn \<Rightarrow> Task list option \<Rightarrow> int \<Rightarrow> TimeSlot list option \<Rightarrow> int \<Rightarrow> bool" where
  "inputs_ok qsort tasks num_tasks fixed_slots num_fixed =
     (qsort_permutes qsort \<and>
      (case tasks of None \<Rightarrow> True | Some ts \<Rightarrow> nat num_tasks \<le> length ts) \<and>
      (case fixed_slots of None \<Rightarrow> True | Some fs \<Rightarrow> nat num_fixed \<le> length fs) \<and>
      (\<forall>t \<in> set (input_tasks tasks num_tasks). task_int32 t))"

text \<open>
  The timeline as the fixed-slot loop leaves it, and the tasks in the order in which
  the search takes them.
\<close>

definition fixed_timeline :: "TimeSlot list option \<Rightarrow> int \<Rightarrow> Timeline" where
  "fixed_timeline fixed_slots num_fixed =
     apply_fixed_slots (timeline_init 7) (fixed_descriptors fixed_slots num_fixed)"

definition search_tasks :: "qsort_fn \<Rightarrow> Task list option \<Rightarrow> int \<Rightarrow> Task list" where
  "search_tasks qsort tasks num_tasks = sorted_tasks_of qsort (input_tasks tasks num_tasks)"

text \<open>One iteration of the fixed-slot loop.\<close>

definition fix_slot :: "Timeline \<Rightarrow> TimeSlot \<Rightarrow> Timeline" where
  "fix_slot tml f =
     (if slot_index f \<ge> 0 \<and> slot_index f < num_slots tml
      then tml\<lparr>slots := (slots tml)[nat (slot_index f) :=
              (slots tml ! nat (slot_index f))\<lparr>task_id := task_id f, is_fixed := True\<rparr>]\<rparr>
      else tml)"

subsection \<open>The loops by recursion on lists\<close>

text \<open>
  The bubble sort and the search once more, by recursion on the list, for the proofs.
  \<open>bubble_pass m\<close> is one run of the inner loop: \<open>m\<close> comparisons of neighbours from the
  left, each swapping the pair when the left score is smaller; \<open>bubble_passes n i\<close> is
  the outer loop from \<open>i\<close> on, for \<open>n\<close> candidates. \<open>backtrack_from\<close> is the search
  over the tasks from \<open>task_index\<close> on. Lemmas \<open>bubble_sort_passes\<close> and
  \<open>backtrack_from_eq\<close> show that they compute what \<open>bubble_sort\<close> and \<open>backtrack\<close> do.
\<close>

fun bubble_pass :: "nat \<Rightarrow> SlotScore list \<Rightarrow> SlotScore list" where
  "bubble_pass (Suc m) (a # b # xs) =
     (if score a < score b then b # bubble_pass m (a # xs)
      else a # bubble_pass m (b # xs))"
| "bubble_pass m xs = xs"

function bubble_passes :: "nat \<Rightarrow> nat \<Rightarrow> SlotScore list \<Rightarrow> SlotScore list" where
  "bubble_passes num_candidates i candidates =
     (if int i < int num_candidates - 1
      then bubble_passes num_candidates (i + 1)
             (bubble_pass (num_candidates - i - 1) candidates)
      else candidates)"
  by pat_completeness auto
termination
  by (relation "measure (\<lambda>(num_candidates, i, candidates). num_candidates - i)") auto

declare bubble_passes.simps [simp del]

fun backtrack_from ::
  "Timeline \<Rightarrow> Task list \<Rightarrow> nat \<Rightarrow> int list \<Rightarrow> search_result option" where
  "backtrack_from timeline [] task_index placements = Some (True, timeline, placements)"
| "backtrack_from timeline (task # tasks) task_index placements =
     (if is_fixed_task task then backtrack_from timeline tasks (task_index + 1) placements
      else try_candidates
             (\<lambda>timeline1 placements1.
                backtrack_from timeline1 tasks (task_index + 1) placements1)
             timeline task task_index placements (sorted_candidates timeline task))"

subsection \<open>Feasible starts and placements\<close>


text \<open>
  The starts that the first loop of \<open>backtrack\<close> can reach are the slots of the timeline:
  \<open>candidate_start\<close> is \<open>feasible_start\<close> together with \<open>s < num_slots\<close>. For a task of
  at least one slot the two are the same.
\<close>

definition candidate_start :: "Timeline \<Rightarrow> Task \<Rightarrow> int \<Rightarrow> bool" where
  "candidate_start tml t s =
     (0 \<le> s \<and> s < num_slots tml \<and> s + duration_slots t \<le> num_slots tml \<and>
      (deadline_slot t \<ge> 0 \<longrightarrow> s + duration_slots t \<le> deadline_slot t) \<and>
      (\<forall>i \<in> {s ..< s + duration_slots t}.
         task_id (slots tml ! nat i) = -1 \<and> \<not> is_fixed (slots tml ! nat i)))"


text \<open>
  \<open>with_task_ids tml lo hi v\<close> is \<open>tml\<close> with \<open>task_id = v\<close> in the slots from \<open>lo\<close> to
  \<open>hi - 1\<close>, and \<open>placed tml t s\<close> is \<open>tml\<close> with task \<open>t\<close> written from slot \<open>s\<close> on: the
  closed forms of the loops of \<open>place_task\<close> and \<open>remove_task\<close>.
\<close>

definition with_task_ids :: "Timeline \<Rightarrow> int \<Rightarrow> int \<Rightarrow> int \<Rightarrow> Timeline" where
  "with_task_ids tml lo hi v =
     tml\<lparr>slots := map (\<lambda>(k, sl). if lo \<le> int k \<and> int k < hi then sl\<lparr>task_id := v\<rparr> else sl)
                    (zip [0 ..< length (slots tml)] (slots tml))\<rparr>"

definition placed :: "Timeline \<Rightarrow> Task \<Rightarrow> int \<Rightarrow> Timeline" where
  "placed tml t s = with_task_ids tml s (s + duration_slots t) (id_task t)"

definition slot_free :: "Timeline \<Rightarrow> nat \<Rightarrow> bool" where
  "slot_free tml k = (task_id (slots tml ! k) = -1 \<and> \<not> is_fixed (slots tml ! k))"

definition occupied :: "Timeline \<Rightarrow> int \<Rightarrow> bool" where
  "occupied tml i = (\<not> slot_free tml (nat i))"

text \<open>
  \<open>place_plan tml ps\<close> places the non-fixed tasks of \<open>ps\<close> one after the other, each at
  the start paired with it, provided that start is feasible when its turn comes.
\<close>

fun place_plan :: "Timeline \<Rightarrow> (Task \<times> int) list \<Rightarrow> Timeline option" where
  "place_plan tml [] = Some tml"
| "place_plan tml ((t, s) # ps) =
     (if is_fixed_task t then place_plan tml ps
      else if candidate_start tml t s then place_plan (placed tml t s) ps
      else None)"

subsection \<open>Assignments of start slots\<close>

text \<open>
  An assignment pairs each task with a start slot. \<open>start_ok n blocked (t, s)\<close>: the
  range \<open>[s, s + duration_slots t)\<close> of a non-fixed task lies within \<open>[0, n)\<close>, ends by
  the deadline if there is one, and contains no blocked slot. \<open>no_overlap\<close>: the ranges of
  two non-fixed tasks are disjoint. \<open>plan_ok\<close>: every pair of the list is \<open>start_ok\<close>, and
  no two pairs at different positions overlap.
\<close>

definition start_ok :: "int \<Rightarrow> (int \<Rightarrow> bool) \<Rightarrow> Task \<times> int \<Rightarrow> bool" where
  "start_ok n blocked p =
     (case p of (t, s) \<Rightarrow>
        is_fixed_task t \<or>
        ({s ..< s + duration_slots t} \<subseteq> {0 ..< n} \<and>
         (deadline_slot t \<ge> 0 \<longrightarrow> s + duration_slots t \<le> deadline_slot t) \<and>
         (\<forall>i \<in> {s ..< s + duration_slots t}. \<not> blocked i)))"

definition no_overlap :: "Task \<times> int \<Rightarrow> Task \<times> int \<Rightarrow> bool" where
  "no_overlap p q =
     (case p of (t, s) \<Rightarrow> case q of (u, r) \<Rightarrow>
        is_fixed_task t \<or> is_fixed_task u \<or>
        {s ..< s + duration_slots t} \<inter> {r ..< r + duration_slots u} = {})"

fun plan_ok :: "int \<Rightarrow> (int \<Rightarrow> bool) \<Rightarrow> (Task \<times> int) list \<Rightarrow> bool" where
  "plan_ok n blocked [] = True"
| "plan_ok n blocked (p # ps) =
     (start_ok n blocked p \<and> (\<forall>q \<in> set ps. no_overlap p q) \<and> plan_ok n blocked ps)"

subsection \<open>Stable order\<close>


subsection \<open>A library sort\<close>

text \<open>
  An insertion sort that meets the contract of \<open>qsort\<close>: it puts an element before the
  elements that compare equal to it, and is stable. It stands for the library in the
  examples.
\<close>

fun insert_before :: "('a \<Rightarrow> 'a \<Rightarrow> int) \<Rightarrow> 'a \<Rightarrow> 'a list \<Rightarrow> 'a list" where
  "insert_before cmp x [] = [x]"
| "insert_before cmp x (y # ys) =
     (if cmp x y \<le> 0 then x # y # ys else y # insert_before cmp x ys)"

definition qsort_stable :: "('a \<Rightarrow> 'a \<Rightarrow> int) \<Rightarrow> 'a list \<Rightarrow> 'a list" where
  "qsort_stable cmp xs = foldr (insert_before cmp) xs []"

subsection \<open>Example inputs\<close>

definition all_allocated :: Allocs where
  "all_allocated = \<lparr> timeline_alloc = True, task_array_alloc = True, placements_alloc = True \<rparr>"

definition study_task :: "int \<Rightarrow> int \<Rightarrow> int \<Rightarrow> Task" where
  "study_task i d dl = task_init\<lparr> id_task := i, duration_slots := d, deadline_slot := dl \<rparr>"

definition fixed_slot :: "int \<Rightarrow> int \<Rightarrow> TimeSlot" where
  "fixed_slot i v = (timeslot_init i)\<lparr> task_id := v, is_fixed := True \<rparr>"

subsection \<open>Runs of slots\<close>

text \<open>
  The slots of the timeline that bear the id of task \<open>t\<close> are exactly the slots from \<open>s\<close>
  to \<open>s + duration_slots t - 1\<close>, and these lie within the timeline.
\<close>

definition occupies_run :: "Timeline \<Rightarrow> Task \<Rightarrow> int \<Rightarrow> bool" where
  "occupies_run timeline t s =
     (0 \<le> s \<and> s + duration_slots t \<le> num_slots timeline \<and>
      (\<forall>k < nat (num_slots timeline).
         (task_id (slots timeline ! k) = id_task t) = (s \<le> int k \<and> int k < s + duration_slots t)))"

section \<open>The energy map\<close>

lemma slot_to_hour_nonneg:
  assumes "0 \<le> i"
  shows "slot_to_hour i = (i mod 48) div 2"
proof -
  have "i smod 48 = i mod 48"
    using assms by (simp add: signed_modulo_int_def sgn_if)
  moreover have "0 \<le> i mod 48" by simp
  ultimately show ?thesis
    by (simp add: slot_to_hour_def SLOTS_PER_DAY_def signed_divide_int_def sgn_if)
qed

text \<open>
  C8. With \<open>hour = slot_to_hour i\<close> (which is \<open>(i mod 48) div 2\<close>, between 0 and 23, for
  every slot index \<open>i \<ge> 0\<close>), \<open>get_energy_level\<close> returns 9 for the peak hours, 6 for the
  medium hours and 3 for the low hours; every hour from 0 to 23 is in exactly one of the
  three classes, and the default 5 is never returned (for no index at all).
\<close>

theorem get_energy_level_classes:
  "(let hour = slot_to_hour i;
        peak = ((8 \<le> hour \<and> hour < 10) \<or> (16 \<le> hour \<and> hour < 18));
        medium = ((6 \<le> hour \<and> hour < 8) \<or> (10 \<le> hour \<and> hour < 12) \<or>
                  (14 \<le> hour \<and> hour < 16) \<or> (18 \<le> hour \<and> hour < 20));
        low = ((12 \<le> hour \<and> hour < 14) \<or> (20 \<le> hour \<and> hour < 24) \<or>
               (0 \<le> hour \<and> hour < 6))
    in (peak \<longrightarrow> get_energy_level i = 9) \<and>
       (medium \<longrightarrow> get_energy_level i = 6) \<and>
       (low \<longrightarrow> get_energy_level i = 3) \<and>
       get_energy_level i \<noteq> 5 \<and>
       (0 \<le> i \<longrightarrow> hour = (i mod 48) div 2 \<and> 0 \<le> hour \<and> hour < 24 \<and>
          (peak \<or> medium \<or> low) \<and> \<not> (peak \<and> medium) \<and> \<not> (peak \<and> low) \<and>
          \<not> (medium \<and> low)))"
proof -
  have "0 \<le> i \<Longrightarrow> 0 \<le> slot_to_hour i \<and> slot_to_hour i < 24"
    by (simp add: slot_to_hour_nonneg)
  moreover have "0 \<le> i \<Longrightarrow> slot_to_hour i = (i mod 48) div 2"
    by (rule slot_to_hour_nonneg)
  ultimately show ?thesis
    unfolding Let_def get_energy_level_def by (cases "0 \<le> i") auto
qed

theorem get_energy_level_classes_witness:
  "slot_to_hour 16 = 8 \<and> get_energy_level 16 = 9 \<and>
   slot_to_hour 60 = 6 \<and> get_energy_level 60 = 6 \<and>
   slot_to_hour 335 = 23 \<and> get_energy_level 335 = 3"
proof -
  have h: "slot_to_hour 16 = 8" "slot_to_hour 60 = 6" "slot_to_hour 335 = 23"
    by (simp_all add: slot_to_hour_nonneg)
  show ?thesis
    using get_energy_level_classes [of 16] get_energy_level_classes [of 60]
      get_energy_level_classes [of 335]
    by (simp add: h Let_def)
qed

section \<open>Constraint checking\<close>

text \<open>
  On a well-formed timeline and for a duration that is a C \<open>int\<close>, \<open>can_place_task\<close>
  decides feasibility: when the addition wraps around, the loop over the slots still
  ends with \<open>false\<close>.
\<close>

lemma wrap32_id: "int32 x \<Longrightarrow> wrap32 x = x"
  by (simp add: wrap32_def int32_def)

lemma wrap32_over: "2 ^ 31 \<le> x \<Longrightarrow> x < 2 ^ 32 \<Longrightarrow> wrap32 x < 0"
proof -
  assume a: "2 ^ 31 \<le> x" "x < 2 ^ 32"
  have "(x + 2 ^ 31) mod 2 ^ 32 = x + 2 ^ 31 - 2 ^ 32"
    using a by (simp add: mod_pos_geq)
  then show ?thesis using a by (simp add: wrap32_def)
qed

lemma required_slots_available_iff:
  "required_slots_available tml s d i = (\<forall>j. i \<le> j \<and> j < d \<longrightarrow> is_slot_available tml (s + j))"
proof (induction tml s d i rule: required_slots_available.induct)
  case (1 tml s d i)
  show ?case
  proof (cases "i < d")
    case False
    then show ?thesis by (subst required_slots_available.simps) auto
  next
    case True
    show ?thesis
    proof (cases "is_slot_available tml (s + i)")
      case False
      with True show ?thesis by (subst required_slots_available.simps) auto
    next
      case av: True
      have "required_slots_available tml s d i = required_slots_available tml s d (i + 1)"
        using True av by (subst required_slots_available.simps) simp
      also have "\<dots> = (\<forall>j. i + 1 \<le> j \<and> j < d \<longrightarrow> is_slot_available tml (s + j))"
        using 1 True av by simp
      also have "\<dots> = (\<forall>j. i \<le> j \<and> j < d \<longrightarrow> is_slot_available tml (s + j))"
      proof (intro iffI allI impI)
        fix j assume h: "\<forall>j. i + 1 \<le> j \<and> j < d \<longrightarrow> is_slot_available tml (s + j)" "i \<le> j \<and> j < d"
        show "is_slot_available tml (s + j)"
        proof (cases "j = i")
          case True then show ?thesis using av by simp
        next
          case False then show ?thesis using h by simp
        qed
      next
        fix j assume h: "\<forall>j. i \<le> j \<and> j < d \<longrightarrow> is_slot_available tml (s + j)" "i + 1 \<le> j \<and> j < d"
        then show "is_slot_available tml (s + j)" by simp
      qed
      finally show ?thesis .
    qed
  qed
qed

lemma can_place_task_iff:
  assumes ok: "timeline_ok tml" and d32: "int32 (duration_slots t)"
    and s: "0 \<le> s" "s < num_slots tml"
  shows "can_place_task tml t s = candidate_start tml t s"
proof -
  let ?d = "duration_slots t"
  have n: "num_slots tml \<le> 336" using ok by (simp add: timeline_ok_def MAX_SLOTS_def)
  have loop: "required_slots_available tml s ?d 0 =
      (\<forall>j. 0 \<le> j \<and> j < ?d \<longrightarrow> is_slot_available tml (s + j))"
    by (rule required_slots_available_iff)
  show ?thesis
  proof (cases "s + ?d < 2 ^ 31")
    case True
    have "int32 (s + ?d)" using True d32 s by (simp add: int32_def)
    then have w: "wrap32 (s + ?d) = s + ?d" by (rule wrap32_id)
    show ?thesis
    proof (cases "s + ?d \<le> num_slots tml")
      case False
      then show ?thesis using s by (simp add: can_place_task_def w candidate_start_def)
    next
      case b: True
      have "(\<forall>j. 0 \<le> j \<and> j < ?d \<longrightarrow> is_slot_available tml (s + j)) =
            (\<forall>i \<in> {s ..< s + ?d}. task_id (slots tml ! nat i) = -1 \<and> \<not> is_fixed (slots tml ! nat i))"
      proof (intro iffI ballI allI impI)
        fix i assume h: "\<forall>j. 0 \<le> j \<and> j < ?d \<longrightarrow> is_slot_available tml (s + j)" "i \<in> {s ..< s + ?d}"
        from h(1)[rule_format, of "i - s"] h(2) have "is_slot_available tml (s + (i - s))" by simp
        then show "task_id (slots tml ! nat i) = -1 \<and> \<not> is_fixed (slots tml ! nat i)"
          by (simp add: is_slot_available_def split: if_splits)
      next
        fix j assume h: "\<forall>i \<in> {s ..< s + ?d}. task_id (slots tml ! nat i) = -1 \<and> \<not> is_fixed (slots tml ! nat i)"
          "0 \<le> j \<and> j < ?d"
        then have "s + j \<in> {s ..< s + ?d}" by simp
        with h(1) have "task_id (slots tml ! nat (s + j)) = -1 \<and> \<not> is_fixed (slots tml ! nat (s + j))" by blast
        then show "is_slot_available tml (s + j)"
          using h(2) s b by (simp add: is_slot_available_def)
      qed
      then show ?thesis using s b loop
        by (auto simp add: can_place_task_def w candidate_start_def)
    qed
  next
    case False
    then have big: "2 ^ 31 \<le> s + ?d" by simp
    have "s + ?d < 2 ^ 32" using d32 s n by (simp add: int32_def)
    then have neg: "wrap32 (s + ?d) < 0" using big by (rule wrap32_over[rotated])
    have dn: "num_slots tml - s < ?d" using big n s by simp
    have "\<not> is_slot_available tml (s + (num_slots tml - s))"
      by (simp add: is_slot_available_def)
    then have "\<not> required_slots_available tml s ?d 0"
      using dn s unfolding loop by (metis diff_ge_0_iff_ge less_imp_le)
    moreover have "\<not> candidate_start tml t s" using big n by (simp add: candidate_start_def)
    ultimately show ?thesis using neg s ok
      by (simp add: can_place_task_def)
  qed
qed

section \<open>Placing and removing a task\<close>

lemma length_with_task_ids [simp]:
  "length (slots (with_task_ids tml lo hi v)) = length (slots tml)"
  by (simp add: with_task_ids_def)

lemma nth_with_task_ids:
  "k < length (slots tml) \<Longrightarrow>
   slots (with_task_ids tml lo hi v) ! k =
     (if lo \<le> int k \<and> int k < hi then (slots tml ! k)\<lparr>task_id := v\<rparr> else slots tml ! k)"
  by (simp add: with_task_ids_def)

lemma with_task_ids_fields [simp]:
  "num_slots (with_task_ids tml lo hi v) = num_slots tml"
  "success (with_task_ids tml lo hi v) = success tml"
  "error_message (with_task_ids tml lo hi v) = error_message tml"
  by (simp_all add: with_task_ids_def)

lemma timeline_eqI:
  "num_slots a = num_slots b \<Longrightarrow> success a = success b \<Longrightarrow>
   error_message a = error_message b \<Longrightarrow> length (slots a) = length (slots b) \<Longrightarrow>
   (\<And>k. k < length (slots b) \<Longrightarrow> slots a ! k = slots b ! k) \<Longrightarrow> a = (b :: Timeline)"
  by (cases a, cases b) (simp add: nth_equalityI)

lemma with_task_ids_empty: "hi \<le> lo \<Longrightarrow> with_task_ids tml lo hi v = tml"
  by (rule timeline_eqI) (simp_all add: nth_with_task_ids)

lemma write_task_ids_eq:
  assumes "0 \<le> s + i" "s + d \<le> num_slots tml" "nat (num_slots tml) \<le> length (slots tml)"
  shows "write_task_ids tml s d v i = Some (with_task_ids tml (s + i) (s + d) v)"
  using assms
proof (induction tml s d v i rule: write_task_ids.induct)
  case (1 tml s d v i)
  show ?case
  proof (cases "i < d")
    case False
    then show ?thesis
      by (subst write_task_ids.simps) (simp add: with_task_ids_empty)
  next
    case True
    let ?k = "nat (s + i)"
    let ?t1 = "tml\<lparr>slots := (slots tml)[?k := (slots tml ! ?k)\<lparr>task_id := v\<rparr>]\<rparr>"
    have k: "?k < length (slots tml)" "s + i < num_slots tml"
      using True "1.prems" by auto
    have w: "write_task_id tml (s + i) v = Some ?t1"
      using k "1.prems" by (simp add: write_task_id_def)
    have "write_task_ids ?t1 s d v (i + 1) = Some (with_task_ids ?t1 (s + (i + 1)) (s + d) v)"
      using "1.IH"[OF True w] "1.prems" by simp
    moreover have "with_task_ids ?t1 (s + (i + 1)) (s + d) v = with_task_ids tml (s + i) (s + d) v"
    proof (rule timeline_eqI)
      fix j assume "j < length (slots (with_task_ids tml (s + i) (s + d) v))"
      then have j: "j < length (slots tml)" by simp
      show "slots (with_task_ids ?t1 (s + (i + 1)) (s + d) v) ! j =
            slots (with_task_ids tml (s + i) (s + d) v) ! j"
        using j k True "1.prems"(1)
        by (cases "j = ?k") (auto simp add: nth_with_task_ids)
    qed simp_all
    ultimately show ?thesis
      using True w by (subst write_task_ids.simps) simp
  qed
qed

lemma place_task_eq:
  assumes "timeline_ok tml" "candidate_start tml t s"
  shows "place_task tml t s =
         Some (with_task_ids tml s (s + duration_slots t) (id_task t))"
  using assms write_task_ids_eq[of s 0 "duration_slots t" tml "id_task t"]
  by (simp add: place_task_def timeline_ok_def candidate_start_def)

lemma timeline_ok_with_task_ids [simp]:
  "timeline_ok (with_task_ids tml lo hi v) = timeline_ok tml"
  by (simp add: timeline_ok_def)

lemma remove_task_eq:
  assumes "timeline_ok tml" "candidate_start tml t s"
  shows "remove_task (with_task_ids tml s (s + duration_slots t) (id_task t)) t s = Some tml"
proof -
  let ?p = "with_task_ids tml s (s + duration_slots t) (id_task t)"
  have "remove_task ?p t s = Some (with_task_ids ?p s (s + duration_slots t) (- 1))"
    using assms write_task_ids_eq[of s 0 "duration_slots t" ?p "- 1"]
    by (simp add: remove_task_def timeline_ok_def candidate_start_def)
  moreover have "with_task_ids ?p s (s + duration_slots t) (- 1) = tml"
  proof (rule timeline_eqI)
    fix k assume k: "k < length (slots tml)"
    show "slots (with_task_ids ?p s (s + duration_slots t) (- 1)) ! k = slots tml ! k"
    proof (cases "s \<le> int k \<and> int k < s + duration_slots t")
      case False
      then show ?thesis using k by (auto simp add: nth_with_task_ids)
    next
      case True
      then have "int k \<in> {s ..< s + duration_slots t}" by simp
      with assms(2) have "task_id (slots tml ! nat (int k)) = - 1"
        unfolding candidate_start_def by blast
      then have "(slots tml ! k)\<lparr>task_id := - 1\<rparr> = slots tml ! k" by simp
      then show ?thesis using k True by (simp add: nth_with_task_ids)
    qed
  qed simp_all
  ultimately show ?thesis by simp
qed

section \<open>The candidate list\<close>

lemma mset_bubble_pass [simp]: "mset (bubble_pass m xs) = mset xs"
  by (induction m xs rule: bubble_pass.induct) auto


lemma length_bubble_pass [simp]: "length (bubble_pass m xs) = length xs"
  by (rule mset_eq_length) simp

lemma mset_bubble_passes [simp]: "mset (bubble_passes n i xs) = mset xs"
proof (induction n i xs rule: bubble_passes.induct)
  case (1 n i xs)
  then show ?case by (subst bubble_passes.simps) simp
qed







text \<open>The bubble sort on the array is the bubble sort on the list.\<close>

lemma swap_neighbours:
  assumes "Suc j < length xs"
  shows "xs[j := xs ! Suc j, Suc j := xs ! j] =
         take j xs @ xs ! Suc j # xs ! j # drop (Suc (Suc j)) xs"
proof -
  have "xs = take j xs @ xs ! j # xs ! Suc j # drop (Suc (Suc j)) xs"
    using assms by (metis Cons_nth_drop_Suc Suc_lessD append_take_drop_id)
  then obtain p a b r where x: "xs = p @ a # b # r" "length p = j" "a = xs ! j" "b = xs ! Suc j"
    "p = take j xs" "r = drop (Suc (Suc j)) xs"
    using assms by (metis Suc_lessD length_take less_imp_le_nat min.absorb2)
  have "(p @ a # b # r)[j := b, Suc j := a] = p @ b # a # r"
    using x(2) by (simp add: list_update_append)
  then show ?thesis using x by metis
qed

lemma bubble_inner_pass:
  assumes "0 \<le> j" "0 \<le> i" "n \<le> int (length xs)"
  shows "bubble_inner xs n i j =
         take (nat j) xs @ bubble_pass (nat (n - i - 1 - j)) (drop (nat j) xs)"
  using assms
proof (induction xs n i j rule: bubble_inner.induct)
  case (1 cs n i j)
  show ?case
  proof (cases "j < n - i - 1")
    case False
    then have "nat (n - i - 1 - j) = 0" by simp
    then show ?thesis using False by (subst bubble_inner.simps) simp
  next
    case True
    let ?m = "nat (n - i - 1 - (j + 1))"
    have m: "nat (n - i - 1 - j) = Suc ?m" using True by simp
    have lt: "Suc (nat j) < length cs" using True 1(2,3,4) by linarith
    have nj: "nat (j + 1) = Suc (nat j)" using 1(2) by simp
    let ?a = "cs ! nat j" and ?b = "cs ! Suc (nat j)" and ?r = "drop (Suc (Suc (nat j))) cs"
    have d: "drop (nat j) cs = ?a # ?b # ?r"
      using lt by (metis Cons_nth_drop_Suc Suc_lessD)
    let ?cs0 = "if score (cs ! nat j) < score (cs ! nat (j + 1))
                then cs[nat j := cs ! nat (j + 1), nat (j + 1) := cs ! nat j] else cs"
    let ?cs' = "if score ?a < score ?b then cs[nat j := ?b, Suc (nat j) := ?a] else cs"
    have cs0: "?cs0 = ?cs'" by (simp add: nj)
    have ih: "bubble_inner ?cs' n i (j + 1) =
        take (nat (j + 1)) ?cs' @ bubble_pass ?m (drop (nat (j + 1)) ?cs')"
    proof -
      have "bubble_inner ?cs0 n i (j + 1) =
        take (nat (j + 1)) ?cs0 @ bubble_pass ?m (drop (nat (j + 1)) ?cs0)"
      proof (rule "1.IH"[OF True])
        show "0 \<le> j + 1" using 1(2) by simp
        show "0 \<le> i" by (rule 1(3))
        show "n \<le> int (length ?cs0)" using 1(4) by simp
      qed
      then show ?thesis unfolding cs0 .
    qed
    have step: "bubble_inner cs n i j = bubble_inner ?cs' n i (j + 1)"
      using True by (subst bubble_inner.simps) (simp add: nj)
    show ?thesis
    proof (cases "score ?a < score ?b")
      case sw: True
      have c': "?cs' = take (nat j) cs @ ?b # ?a # ?r"
        using sw swap_neighbours[OF lt] by simp
      have l: "length (take (nat j) cs) = nat j" using lt by simp
      have t: "take (Suc (nat j)) ?cs' = take (nat j) cs @ [?b]"
        unfolding c' using l by (simp add: take_append)
      have dr: "drop (Suc (nat j)) ?cs' = ?a # ?r"
        unfolding c' using l by (simp add: drop_append)
      show ?thesis unfolding step ih nj t dr m d using sw by simp
    next
      case ns: False
      have t: "take (Suc (nat j)) cs = take (nat j) cs @ [?a]"
        using lt by (simp add: take_Suc_conv_app_nth)
      have dr: "drop (Suc (nat j)) cs = ?b # ?r"
        using lt by (metis Cons_nth_drop_Suc)
      show ?thesis unfolding step ih nj m d using ns t dr by simp
    qed
  qed
qed

lemma bubble_sort_passes_aux:
  assumes "0 \<le> i" "n = int (length xs)"
  shows "bubble_sort xs n i = bubble_passes (length xs) (nat i) xs"
  using assms
proof (induction xs n i rule: bubble_sort.induct)
  case (1 cs n i)
  show ?case
  proof (cases "i < n - 1")
    case False
    then show ?thesis using 1(2,3)
      by (subst bubble_sort.simps, subst bubble_passes.simps) auto
  next
    case True
    have "nat (n - i - 1 - 0) = length cs - nat i - 1" using 1(2,3) by linarith
    then have p: "bubble_inner cs n i 0 = bubble_pass (length cs - nat i - 1) cs"
      using bubble_inner_pass[of 0 i n cs] 1(2,3) by simp
    have "bubble_sort cs n i = bubble_sort (bubble_inner cs n i 0) n (i + 1)"
      using True by (subst bubble_sort.simps) simp
    also have "\<dots> = bubble_passes (length cs) (nat (i + 1)) (bubble_inner cs n i 0)"
      using "1.IH"[OF True] 1(2,3) p by simp
    also have "\<dots> = bubble_passes (length cs) (nat i) cs"
      using True 1(2,3) unfolding p
      by (subst (2) bubble_passes.simps) (simp add: nat_add_distrib)
    finally show ?thesis .
  qed
qed

lemma bubble_sort_passes:
  "bubble_sort xs (int (length xs)) 0 = bubble_passes (length xs) 0 xs"
  using bubble_sort_passes_aux[of 0 "int (length xs)" xs] by simp

lemma sorted_candidates_passes:
  "sorted_candidates tml t =
   bubble_passes (length (collect_candidates tml t)) 0 (collect_candidates tml t)"
  by (simp add: sorted_candidates_def Let_def bubble_sort_passes)


lemma collect_candidates_slots:
  "map slot (collect_candidates tml t) = filter (can_place_task tml t) [0 .. num_slots tml - 1]"
  by (simp add: collect_candidates_def comp_def)





lemma mset_sorted_candidates [simp]:
  "mset (sorted_candidates tml t) = mset (collect_candidates tml t)"
  by (simp add: sorted_candidates_passes)

lemma set_sorted_candidates [simp]:
  "set (sorted_candidates tml t) = set (collect_candidates tml t)"
  by (rule mset_eq_setD) simp

lemma slot_sorted_candidates:
  assumes "timeline_ok tml" "int32 (duration_slots t)"
  shows "slot ` set (sorted_candidates tml t) = {s. candidate_start tml t s}"
proof -
  have "slot ` set (sorted_candidates tml t) = set (map slot (collect_candidates tml t))"
    by simp
  also have "\<dots> = {s. 0 \<le> s \<and> s < num_slots tml \<and> can_place_task tml t s}"
    unfolding collect_candidates_slots by auto
  also have "\<dots> = {s. candidate_start tml t s}"
    using can_place_task_iff[OF assms] by (auto simp add: candidate_start_def)
  finally show ?thesis .
qed


section \<open>The search\<close>

text \<open>
  The loop over the candidates, for any recursive call that returns, leaves the
  placements below its own index alone and restores the timeline when it fails.
\<close>

lemma timeline_ok_placed [simp]: "timeline_ok (placed tml t s) = timeline_ok tml"
  by (simp add: placed_def)

lemma try_candidates_result:
  assumes ok: "timeline_ok tml"
    and feas: "\<forall>c \<in> set cs. candidate_start tml t (slot c)"
    and rec: "\<And>c pl1. c \<in> set cs \<Longrightarrow>
       \<exists>b tml' pl'. recurse (placed tml t (slot c)) pl1 = Some (b, tml', pl') \<and>
         length pl' = length pl1 \<and> (\<forall>j < Suc idx. pl' ! j = pl1 ! j) \<and>
         (\<not> b \<longrightarrow> tml' = placed tml t (slot c)) \<and>
         (b \<longrightarrow> R (placed tml t (slot c)) tml' pl')"
  shows "\<exists>b tml' pl'. try_candidates recurse tml t idx pl cs = Some (b, tml', pl') \<and>
         length pl' = length pl \<and> (\<forall>j < idx. pl' ! j = pl ! j) \<and>
         (\<not> b \<longrightarrow> tml' = tml) \<and>
         (b \<longrightarrow> (\<exists>c \<in> set cs. R (placed tml t (slot c)) tml' pl' \<and>
                    (idx < length pl \<longrightarrow> pl' ! idx = slot c)))"
  using feas rec
proof (induction cs arbitrary: pl)
  case Nil
  then show ?case by auto
next
  case (Cons c cs)
  have fc: "candidate_start tml t (slot c)" using Cons.prems(1) by simp
  have pt: "place_task tml t (slot c) = Some (placed tml t (slot c))"
    using place_task_eq[OF ok fc] by (simp add: placed_def)
  from Cons.prems(2)[of c "pl[idx := slot c]"] obtain b tml2 pl2 where
    r: "recurse (placed tml t (slot c)) (pl[idx := slot c]) = Some (b, tml2, pl2)"
       "length pl2 = length pl" "\<forall>j < Suc idx. pl2 ! j = (pl[idx := slot c]) ! j"
       "\<not> b \<longrightarrow> tml2 = placed tml t (slot c)"
       "b \<longrightarrow> R (placed tml t (slot c)) tml2 pl2"
    by auto
  show ?case
  proof (cases b)
    case True
    have "try_candidates recurse tml t idx pl (c # cs) = Some (True, tml2, pl2)"
      using pt r(1) True by simp
    moreover have "\<forall>j < idx. pl2 ! j = pl ! j" using r(3) by simp
    moreover have "idx < length pl \<longrightarrow> pl2 ! idx = slot c" using r(3) by simp
    ultimately show ?thesis using r(2,5) True by auto
  next
    case False
    then have t2: "tml2 = placed tml t (slot c)" using r(4) by simp
    have rm: "remove_task tml2 t (slot c) = Some tml"
      unfolding t2 placed_def by (rule remove_task_eq[OF ok fc])
    have step: "try_candidates recurse tml t idx pl (c # cs) =
                try_candidates recurse tml t idx (pl2[idx := - 1]) cs"
      using pt r(1) False rm by simp
    have "\<exists>b tml' pl'. try_candidates recurse tml t idx (pl2[idx := - 1]) cs = Some (b, tml', pl') \<and>
         length pl' = length (pl2[idx := - 1]) \<and> (\<forall>j < idx. pl' ! j = (pl2[idx := - 1]) ! j) \<and>
         (\<not> b \<longrightarrow> tml' = tml) \<and>
         (b \<longrightarrow> (\<exists>c \<in> set cs. R (placed tml t (slot c)) tml' pl' \<and>
                    (idx < length (pl2[idx := - 1]) \<longrightarrow> pl' ! idx = slot c)))"
      using Cons.prems by (intro Cons.IH) auto
    then obtain b' tml' pl' where
      q: "try_candidates recurse tml t idx (pl2[idx := - 1]) cs = Some (b', tml', pl')"
         "length pl' = length pl2" "\<forall>j < idx. pl' ! j = (pl2[idx := - 1]) ! j"
         "\<not> b' \<longrightarrow> tml' = tml"
         "b' \<longrightarrow> (\<exists>c \<in> set cs. R (placed tml t (slot c)) tml' pl' \<and>
                    (idx < length pl2 \<longrightarrow> pl' ! idx = slot c))"
      by auto
    have "\<forall>j < idx. pl' ! j = pl ! j" using q(3) r(3) by simp
    then show ?thesis using step q r(2) by auto
  qed
qed

lemma backtrack_result:
  assumes "timeline_ok tml" "\<forall>t \<in> set ts. int32 (duration_slots t)"
  shows "\<exists>b tml' pl'. backtrack_from tml ts idx pl = Some (b, tml', pl') \<and>
           length pl' = length pl \<and> (\<forall>j < idx. pl' ! j = pl ! j) \<and>
           (\<not> b \<longrightarrow> tml' = tml) \<and>
           (b \<longrightarrow> (\<exists>ss. length ss = length ts \<and> place_plan tml (zip ts ss) = Some tml' \<and>
                     (\<forall>k < length ts. \<not> is_fixed_task (ts ! k) \<longrightarrow> idx + k < length pl \<longrightarrow>
                        pl' ! (idx + k) = ss ! k)))"
  using assms
proof (induction ts arbitrary: tml idx pl)
  case Nil
  then show ?case by auto
next
  case (Cons t rest)
  have rest32: "\<forall>t \<in> set rest. int32 (duration_slots t)" using Cons.prems(2) by simp
  show ?case
  proof (cases "is_fixed_task t")
    case True
    from Cons.IH[OF Cons.prems(1) rest32, of "Suc idx" pl] obtain b tml' pl' where
      r: "backtrack_from tml rest (Suc idx) pl = Some (b, tml', pl')" "length pl' = length pl"
         "\<forall>j < Suc idx. pl' ! j = pl ! j" "\<not> b \<longrightarrow> tml' = tml"
         "b \<longrightarrow> (\<exists>ss. length ss = length rest \<and> place_plan tml (zip rest ss) = Some tml' \<and>
                     (\<forall>k < length rest. \<not> is_fixed_task (rest ! k) \<longrightarrow> Suc idx + k < length pl \<longrightarrow>
                        pl' ! (Suc idx + k) = ss ! k))"
      by blast
    have "b \<longrightarrow> (\<exists>ss. length ss = length (t # rest) \<and>
                   place_plan tml (zip (t # rest) ss) = Some tml' \<and>
                   (\<forall>k < length (t # rest). \<not> is_fixed_task ((t # rest) ! k) \<longrightarrow>
                      idx + k < length pl \<longrightarrow> pl' ! (idx + k) = ss ! k))"
    proof
      assume b
      with r(5) obtain ss where
        s: "length ss = length rest" "place_plan tml (zip rest ss) = Some tml'"
           "\<forall>k < length rest. \<not> is_fixed_task (rest ! k) \<longrightarrow> Suc idx + k < length pl \<longrightarrow>
                        pl' ! (Suc idx + k) = ss ! k"
        by blast
      have "\<forall>k < length (t # rest). \<not> is_fixed_task ((t # rest) ! k) \<longrightarrow>
                      idx + k < length pl \<longrightarrow> pl' ! (idx + k) = (0 # ss) ! k"
      proof (intro allI impI)
        fix k assume k: "k < length (t # rest)" "\<not> is_fixed_task ((t # rest) ! k)" "idx + k < length pl"
        show "pl' ! (idx + k) = (0 # ss) ! k"
        proof (cases k)
          case 0 then show ?thesis using k True by simp
        next
          case (Suc k') then show ?thesis using k s(3) by simp
        qed
      qed
      then show "\<exists>ss. length ss = length (t # rest) \<and>
                   place_plan tml (zip (t # rest) ss) = Some tml' \<and>
                   (\<forall>k < length (t # rest). \<not> is_fixed_task ((t # rest) ! k) \<longrightarrow>
                      idx + k < length pl \<longrightarrow> pl' ! (idx + k) = ss ! k)"
        using s(1,2) True by (intro exI[of _ "0 # ss"]) simp
    qed
    then show ?thesis using r(1-4) True by simp
  next
    case False
    let ?rec = "\<lambda>timeline1 placements1. backtrack_from timeline1 rest (Suc idx) placements1"
    let ?R = "\<lambda>tml1 tml' pl'. \<exists>ss. length ss = length rest \<and>
                 place_plan tml1 (zip rest ss) = Some tml' \<and>
                 (\<forall>k < length rest. \<not> is_fixed_task (rest ! k) \<longrightarrow> Suc idx + k < length pl' \<longrightarrow>
                    pl' ! (Suc idx + k) = ss ! k)"
    have t32: "int32 (duration_slots t)" using Cons.prems(2) by simp
    have feas: "\<forall>c \<in> set (sorted_candidates tml t). candidate_start tml t (slot c)"
      using slot_sorted_candidates[OF Cons.prems(1) t32] by blast
    have rec: "\<exists>b tml' pl'. ?rec (placed tml t (slot c)) pl1 = Some (b, tml', pl') \<and>
         length pl' = length pl1 \<and> (\<forall>j < Suc idx. pl' ! j = pl1 ! j) \<and>
         (\<not> b \<longrightarrow> tml' = placed tml t (slot c)) \<and>
         (b \<longrightarrow> ?R (placed tml t (slot c)) tml' pl')" for c pl1
    proof -
      have "timeline_ok (placed tml t (slot c))" using Cons.prems(1) by simp
      from Cons.IH[OF this rest32, of "Suc idx" pl1] obtain b tml' pl' where
        r: "backtrack_from (placed tml t (slot c)) rest (Suc idx) pl1 = Some (b, tml', pl')"
           "length pl' = length pl1" "\<forall>j < Suc idx. pl' ! j = pl1 ! j"
           "\<not> b \<longrightarrow> tml' = placed tml t (slot c)"
           "b \<longrightarrow> (\<exists>ss. length ss = length rest \<and>
                     place_plan (placed tml t (slot c)) (zip rest ss) = Some tml' \<and>
                     (\<forall>k < length rest. \<not> is_fixed_task (rest ! k) \<longrightarrow>
                        Suc idx + k < length pl1 \<longrightarrow> pl' ! (Suc idx + k) = ss ! k))"
        by blast
      from r(5) have "b \<longrightarrow> ?R (placed tml t (slot c)) tml' pl'"
        unfolding r(2) .
      with r(1-4) show ?thesis by blast
    qed
    from try_candidates_result[where recurse = ?rec and R = ?R and idx = idx and pl = pl
        and cs = "sorted_candidates tml t", OF Cons.prems(1) feas rec]
    obtain b tml' pl' where
      q: "try_candidates ?rec tml t idx pl (sorted_candidates tml t) = Some (b, tml', pl')"
         "length pl' = length pl" "\<forall>j < idx. pl' ! j = pl ! j" "\<not> b \<longrightarrow> tml' = tml"
         "b \<longrightarrow> (\<exists>c \<in> set (sorted_candidates tml t). ?R (placed tml t (slot c)) tml' pl' \<and>
                    (idx < length pl \<longrightarrow> pl' ! idx = slot c))"
      by blast
    have bt: "backtrack_from tml (t # rest) idx pl = Some (b, tml', pl')"
      using False q(1) by simp
    have "b \<longrightarrow> (\<exists>ss. length ss = length (t # rest) \<and>
                   place_plan tml (zip (t # rest) ss) = Some tml' \<and>
                   (\<forall>k < length (t # rest). \<not> is_fixed_task ((t # rest) ! k) \<longrightarrow>
                      idx + k < length pl \<longrightarrow> pl' ! (idx + k) = ss ! k))"
    proof
      assume b
      with q(5) obtain c ss where
        s: "c \<in> set (sorted_candidates tml t)" "length ss = length rest"
           "place_plan (placed tml t (slot c)) (zip rest ss) = Some tml'"
           "\<forall>k < length rest. \<not> is_fixed_task (rest ! k) \<longrightarrow> Suc idx + k < length pl' \<longrightarrow>
                    pl' ! (Suc idx + k) = ss ! k"
           "idx < length pl \<longrightarrow> pl' ! idx = slot c"
        by blast
      have fc: "candidate_start tml t (slot c)" using feas s(1) by blast
      have "\<forall>k < length (t # rest). \<not> is_fixed_task ((t # rest) ! k) \<longrightarrow>
                      idx + k < length pl \<longrightarrow> pl' ! (idx + k) = (slot c # ss) ! k"
      proof (intro allI impI)
        fix k assume k: "k < length (t # rest)" "\<not> is_fixed_task ((t # rest) ! k)" "idx + k < length pl"
        show "pl' ! (idx + k) = (slot c # ss) ! k"
        proof (cases k)
          case 0 then show ?thesis using k s(5) by simp
        next
          case (Suc k') then show ?thesis using k s(4) q(2) by simp
        qed
      qed
      then show "\<exists>ss. length ss = length (t # rest) \<and>
                   place_plan tml (zip (t # rest) ss) = Some tml' \<and>
                   (\<forall>k < length (t # rest). \<not> is_fixed_task ((t # rest) ! k) \<longrightarrow>
                      idx + k < length pl \<longrightarrow> pl' ! (idx + k) = ss ! k)"
        using s(2,3) False fc by (intro exI[of _ "slot c # ss"]) simp
    qed
    then show ?thesis using bt q(2-4) by blast
  qed
qed

text \<open>The search over the array is the search over the list of the tasks still to place.\<close>

lemma backtrack_from_eq:
  assumes "0 \<le> i" "n \<le> int (length tasks)"
  shows "backtrack tml tasks n i pl =
         backtrack_from tml (drop (nat i) (take (nat n) tasks)) (nat i) pl"
  using assms
proof (induction tml tasks n i pl rule: backtrack.induct)
  case (1 tml tasks n i pl)
  show ?case
  proof (cases "i \<ge> n")
    case True
    then have "drop (nat i) (take (nat n) tasks) = []" by simp
    then show ?thesis using True by (subst backtrack.simps) simp
  next
    case False
    let ?t = "tasks ! nat i"
    have lt: "nat i < length (take (nat n) tasks)" using False 1(3,4) by simp
    have rng: "\<not> (i < 0 \<or> nat i \<ge> length tasks)" using False 1(3,4) by simp
    have d: "drop (nat i) (take (nat n) tasks) = ?t # drop (nat (i + 1)) (take (nat n) tasks)"
      using Cons_nth_drop_Suc[OF lt] lt 1(3) by (simp add: nat_add_distrib)
    have ni: "nat (i + 1) = nat i + 1" using 1(3) by simp
    show ?thesis
    proof (cases "is_fixed_task ?t")
      case True
      have "backtrack tml tasks n (i + 1) pl =
            backtrack_from tml (drop (nat (i + 1)) (take (nat n) tasks)) (nat (i + 1)) pl"
        using "1.IH"(1)[OF False rng refl True] 1(3,4) by simp
      then show ?thesis using False rng True unfolding d
        by (subst backtrack.simps) (simp add: ni Let_def)
    next
      case nf: False
      have "backtrack tml1 tasks n (i + 1) pl1 =
            backtrack_from tml1 (drop (nat (i + 1)) (take (nat n) tasks)) (nat (i + 1)) pl1"
        for tml1 pl1
        using "1.IH"(2)[OF False rng refl nf] 1(3,4) by simp
      then have "(\<lambda>tml1 pl1. backtrack tml1 tasks n (i + 1) pl1) =
            (\<lambda>tml1 pl1. backtrack_from tml1 (drop (nat (i + 1)) (take (nat n) tasks))
               (nat i + 1) pl1)"
        by (simp add: ni)
      then show ?thesis using False rng nf unfolding d
        by (subst backtrack.simps) (simp add: Let_def)
    qed
  qed
qed





section \<open>Sequences of placements\<close>

lemma placed_fields [simp]:
  "num_slots (placed tml t s) = num_slots tml"
  "success (placed tml t s) = success tml"
  "error_message (placed tml t s) = error_message tml"
  "length (slots (placed tml t s)) = length (slots tml)"
  by (simp_all add: placed_def)

lemma nth_placed:
  "k < length (slots tml) \<Longrightarrow>
   slots (placed tml t s) ! k =
     (if s \<le> int k \<and> int k < s + duration_slots t
      then (slots tml ! k)\<lparr>task_id := id_task t\<rparr> else slots tml ! k)"
  by (simp add: placed_def nth_with_task_ids)

lemma candidate_start_free:
  "candidate_start tml t s \<Longrightarrow> s \<le> int k \<Longrightarrow> int k < s + duration_slots t \<Longrightarrow> slot_free tml k"
proof -
  assume a: "candidate_start tml t s" "s \<le> int k" "int k < s + duration_slots t"
  then have "int k \<in> {s ..< s + duration_slots t}" by simp
  with a(1) have "task_id (slots tml ! nat (int k)) = -1 \<and> \<not> is_fixed (slots tml ! nat (int k))"
    unfolding candidate_start_def by blast
  then show ?thesis by (simp add: slot_free_def)
qed

text \<open>Placing tasks changes nothing but the \<open>task_id\<close> of slots that were free.\<close>

lemma place_plan_frame:
  assumes "place_plan tml ps = Some tml'"
  shows "num_slots tml' = num_slots tml \<and> success tml' = success tml \<and>
         error_message tml' = error_message tml \<and> length (slots tml') = length (slots tml) \<and>
         (\<forall>k < length (slots tml).
            slot_index (slots tml' ! k) = slot_index (slots tml ! k) \<and>
            energy_level (slots tml' ! k) = energy_level (slots tml ! k) \<and>
            is_fixed (slots tml' ! k) = is_fixed (slots tml ! k) \<and>
            (\<not> slot_free tml k \<longrightarrow> slots tml' ! k = slots tml ! k))"
  using assms
proof (induction ps arbitrary: tml)
  case Nil
  then show ?case by simp
next
  case (Cons p ps)
  obtain t s where p: "p = (t, s)" by (cases p)
  show ?case
  proof (cases "is_fixed_task t")
    case True
    then show ?thesis using Cons p by simp
  next
    case False
    then have f: "candidate_start tml t s" and r: "place_plan (placed tml t s) ps = Some tml'"
      using Cons.prems p by (simp_all split: if_splits)
    note ih = Cons.IH[OF r]
    have "\<forall>k < length (slots tml).
            slot_index (slots tml' ! k) = slot_index (slots tml ! k) \<and>
            energy_level (slots tml' ! k) = energy_level (slots tml ! k) \<and>
            is_fixed (slots tml' ! k) = is_fixed (slots tml ! k) \<and>
            (\<not> slot_free tml k \<longrightarrow> slots tml' ! k = slots tml ! k)"
    proof (intro allI impI)
      fix k assume k: "k < length (slots tml)"
      then have k': "k < length (slots (placed tml t s))" by simp
      from ih k' have a: "slot_index (slots tml' ! k) = slot_index (slots (placed tml t s) ! k)"
        "energy_level (slots tml' ! k) = energy_level (slots (placed tml t s) ! k)"
        "is_fixed (slots tml' ! k) = is_fixed (slots (placed tml t s) ! k)"
        "\<not> slot_free (placed tml t s) k \<longrightarrow> slots tml' ! k = slots (placed tml t s) ! k"
        by blast+
      have b: "\<not> slot_free tml k \<longrightarrow> slots (placed tml t s) ! k = slots tml ! k"
        using candidate_start_free[OF f, of k] k by (auto simp add: nth_placed)
      then have c: "\<not> slot_free tml k \<longrightarrow> \<not> slot_free (placed tml t s) k"
        by (simp add: slot_free_def)
      show "slot_index (slots tml' ! k) = slot_index (slots tml ! k) \<and>
            energy_level (slots tml' ! k) = energy_level (slots tml ! k) \<and>
            is_fixed (slots tml' ! k) = is_fixed (slots tml ! k) \<and>
            (\<not> slot_free tml k \<longrightarrow> slots tml' ! k = slots tml ! k)"
        using a b c k by (auto simp add: nth_placed)
    qed
    then show ?thesis using ih by simp
  qed
qed

text \<open>Every task of a sequence of placements is within the timeline and meets its deadline.\<close>

lemma place_plan_feasible:
  assumes "place_plan tml ps = Some tml'" "(t, s) \<in> set ps" "\<not> is_fixed_task t"
  shows "0 \<le> s \<and> s < num_slots tml \<and> s + duration_slots t \<le> num_slots tml \<and>
         (deadline_slot t \<ge> 0 \<longrightarrow> s + duration_slots t \<le> deadline_slot t)"
  using assms
proof (induction ps arbitrary: tml)
  case Nil
  then show ?case by simp
next
  case (Cons p ps)
  obtain u r where p: "p = (u, r)" by (cases p)
  show ?case
  proof (cases "is_fixed_task u")
    case True
    then show ?thesis using Cons p by auto
  next
    case False
    then have f: "candidate_start tml u r" and rr: "place_plan (placed tml u r) ps = Some tml'"
      using Cons.prems p by (simp_all split: if_splits)
    show ?thesis
    proof (cases "(t, s) = (u, r)")
      case True
      then show ?thesis using f by (simp add: candidate_start_def)
    next
      case False
      then have "(t, s) \<in> set ps" using Cons.prems(2) p by auto
      from Cons.IH[OF rr this Cons.prems(3)] show ?thesis by simp
    qed
  qed
qed

text \<open>A placed task whose id is not the empty sentinel keeps its slots.\<close>

lemma place_plan_ids:
  assumes "place_plan tml ps = Some tml'" "(t, s) \<in> set ps" "\<not> is_fixed_task t"
    "id_task t \<noteq> -1" "nat (num_slots tml) \<le> length (slots tml)"
    "s \<le> i" "i < s + duration_slots t"
  shows "task_id (slots tml' ! nat i) = id_task t"
  using assms
proof (induction ps arbitrary: tml)
  case Nil
  then show ?case by simp
next
  case (Cons p ps)
  obtain u r where p: "p = (u, r)" by (cases p)
  show ?case
  proof (cases "is_fixed_task u")
    case True
    then show ?thesis using Cons p by auto
  next
    case False
    then have f: "candidate_start tml u r" and rr: "place_plan (placed tml u r) ps = Some tml'"
      using Cons.prems(1) p by (simp_all split: if_splits)
    show ?thesis
    proof (cases "(t, s) \<in> set ps")
      case True
      show ?thesis
        using Cons.IH[OF rr True] Cons.prems by simp
    next
      case False
      then have e: "u = t" "r = s" using Cons.prems(2) p by auto
      have b: "0 \<le> s" "s + duration_slots t \<le> num_slots tml"
        using f e by (simp_all add: candidate_start_def)
      then have k: "nat i < length (slots tml)" using Cons.prems(5-7) by linarith
      have "slots (placed tml t s) ! nat i = (slots tml ! nat i)\<lparr>task_id := id_task t\<rparr>"
        using k Cons.prems(6,7) b by (simp add: nth_placed)
      then have "\<not> slot_free (placed tml t s) (nat i)" "task_id (slots (placed tml t s) ! nat i) = id_task t"
        using Cons.prems(4) by (simp_all add: slot_free_def)
      moreover have "nat i < length (slots (placed tml t s))" using k by simp
      ultimately show ?thesis using place_plan_frame[OF rr] e by metis
    qed
  qed
qed

text \<open>A slot whose \<open>task_id\<close> changed lies in the range of a placed task and bears its id.\<close>

lemma place_plan_changed:
  assumes "place_plan tml ps = Some tml'" "k < length (slots tml)"
  shows "task_id (slots tml' ! k) = task_id (slots tml ! k) \<or>
         (\<exists>(t, s) \<in> set ps. \<not> is_fixed_task t \<and> s \<le> int k \<and> int k < s + duration_slots t \<and>
            task_id (slots tml' ! k) = id_task t)"
  using assms
proof (induction ps arbitrary: tml)
  case Nil
  then show ?case by simp
next
  case (Cons p ps)
  obtain u r where p: "p = (u, r)" by (cases p)
  show ?case
  proof (cases "is_fixed_task u")
    case True
    then show ?thesis using Cons p by auto
  next
    case False
    then have f: "candidate_start tml u r" and rr: "place_plan (placed tml u r) ps = Some tml'"
      using Cons.prems(1) p by (simp_all split: if_splits)
    have k': "k < length (slots (placed tml u r))" using Cons.prems(2) by simp
    from Cons.IH[OF rr k'] show ?thesis
    proof
      assume eq: "task_id (slots tml' ! k) = task_id (slots (placed tml u r) ! k)"
      show ?thesis
      proof (cases "r \<le> int k \<and> int k < r + duration_slots u")
        case True
        then have "task_id (slots tml' ! k) = id_task u"
          using eq Cons.prems(2) by (simp add: nth_placed)
        then show ?thesis using True False p by auto
      next
        case False
        then show ?thesis using eq Cons.prems(2) by (auto simp add: nth_placed)
      qed
    next
      assume "\<exists>(t, s) \<in> set ps. \<not> is_fixed_task t \<and> s \<le> int k \<and> int k < s + duration_slots t \<and>
            task_id (slots tml' ! k) = id_task t"
      then show ?thesis by auto
    qed
  qed
qed

section \<open>Assignments\<close>

text \<open>\<open>plan_ok\<close> does not depend on the order of the pairs.\<close>

lemma no_overlap_sym: "no_overlap p q = no_overlap q p"
  by (cases p, cases q) (auto simp add: no_overlap_def)

lemma plan_ok_char:
  "plan_ok n bl ps =
     ((\<forall>p \<in># mset ps. start_ok n bl p) \<and>
      (\<forall>p q. p \<in># mset ps \<longrightarrow> q \<in># mset ps - {#p#} \<longrightarrow> no_overlap p q))"
  (is "_ = (?F ps \<and> ?D ps)")
proof (induction ps)
  case Nil
  then show ?case by simp
next
  case (Cons a ps)
  have D: "?D (a # ps) = ((\<forall>q \<in> set ps. no_overlap a q) \<and> ?D ps)"
  proof
    assume h: "?D (a # ps)"
    have "\<forall>q \<in> set ps. no_overlap a q"
    proof
      fix q assume "q \<in> set ps"
      then have "q \<in># mset (a # ps) - {#a#}" by simp
      moreover have "a \<in># mset (a # ps)" by simp
      ultimately show "no_overlap a q" using h by blast
    qed
    moreover have "?D ps"
    proof (intro allI impI)
      fix p q assume pq: "p \<in># mset ps" "q \<in># mset ps - {#p#}"
      then have "p \<in># mset (a # ps)" by simp
      moreover have "mset (a # ps) - {#p#} = add_mset a (mset ps - {#p#})"
        using pq(1) by simp
      then have "q \<in># mset (a # ps) - {#p#}" using pq(2) by simp
      ultimately show "no_overlap p q" using h by blast
    qed
    ultimately show "(\<forall>q \<in> set ps. no_overlap a q) \<and> ?D ps" by blast
  next
    assume h: "(\<forall>q \<in> set ps. no_overlap a q) \<and> ?D ps"
    show "?D (a # ps)"
    proof (intro allI impI)
      fix p q assume pq: "p \<in># mset (a # ps)" "q \<in># mset (a # ps) - {#p#}"
      show "no_overlap p q"
      proof (cases "p = a")
        case True
        then have "q \<in> set ps" using pq(2) by simp
        then show ?thesis using h True by blast
      next
        case False
        then have p: "p \<in># mset ps" using pq(1) by simp
        have "mset (a # ps) - {#p#} = add_mset a (mset ps - {#p#})"
          using p by simp
        then have "q = a \<or> q \<in># mset ps - {#p#}" using pq(2) by auto
        then show ?thesis
        proof
          assume "q = a"
          moreover have "no_overlap a p" using h p by auto
          ultimately show ?thesis using no_overlap_sym[of a p] by blast
        next
          assume "q \<in># mset ps - {#p#}"
          then show ?thesis using h p by blast
        qed
      qed
    qed
  qed
  have F: "?F (a # ps) = (start_ok n bl a \<and> ?F ps)" by auto
  show ?case unfolding plan_ok.simps Cons.IH D F by blast
qed

lemma plan_ok_mset: "mset ps = mset ps' \<Longrightarrow> plan_ok n bl ps = plan_ok n bl ps'"
  unfolding plan_ok_char by simp

lemma realign:
  "mset ys = mset (map fst ps) \<Longrightarrow> \<exists>ps'. map fst ps' = ys \<and> mset ps' = mset ps"
proof (induction ys arbitrary: ps)
  case Nil
  then show ?case by simp
next
  case (Cons y ys)
  have "y \<in># mset (map fst ps)" using Cons.prems by (metis mset.simps(2) union_single_eq_member)
  then obtain p where p: "p \<in> set ps" "fst p = y" by auto
  have "mset (map fst (remove1 p ps)) = mset (map fst ps) - {#y#}"
    using p by (simp add: image_mset_Diff)
  also have "\<dots> = mset ys" using Cons.prems[symmetric] by simp
  finally have "mset ys = mset (map fst (remove1 p ps))" by simp
  from Cons.IH[OF this] obtain ps' where
    q: "map fst ps' = ys" "mset ps' = mset (remove1 p ps)" by blast
  have "map fst (p # ps') = y # ys" using q(1) p(2) by simp
  moreover have "mset (p # ps') = mset ps" using q(2) p(1) by simp
  ultimately show ?case by (intro exI[of _ "p # ps'"]) simp
qed

section \<open>Completeness of the search\<close>

lemma try_candidates_complete:
  assumes ok: "timeline_ok tml"
    and feas: "\<forall>c \<in> set cs. candidate_start tml t (slot c)"
    and rec: "\<And>c pl1. c \<in> set cs \<Longrightarrow>
       \<exists>b tml' pl'. recurse (placed tml t (slot c)) pl1 = Some (b, tml', pl') \<and>
         (\<not> b \<longrightarrow> tml' = placed tml t (slot c))"
    and good: "c0 \<in> set cs"
      "\<And>pl1. \<exists>tml' pl'. recurse (placed tml t (slot c0)) pl1 = Some (True, tml', pl')"
  shows "\<exists>tml' pl'. try_candidates recurse tml t idx pl cs = Some (True, tml', pl')"
  using feas rec good(1)
proof (induction cs arbitrary: pl)
  case Nil
  then show ?case by simp
next
  case (Cons c cs)
  have fc: "candidate_start tml t (slot c)" using Cons.prems(1) by simp
  have pt: "place_task tml t (slot c) = Some (placed tml t (slot c))"
    using place_task_eq[OF ok fc] by (simp add: placed_def)
  from Cons.prems(2)[of c "pl[idx := slot c]"] obtain b tml2 pl2 where
    r: "recurse (placed tml t (slot c)) (pl[idx := slot c]) = Some (b, tml2, pl2)"
       "\<not> b \<longrightarrow> tml2 = placed tml t (slot c)"
    by auto
  show ?case
  proof (cases b)
    case True
    then show ?thesis using pt r(1) by simp
  next
    case False
    then have t2: "tml2 = placed tml t (slot c)" using r(2) by simp
    have rm: "remove_task tml2 t (slot c) = Some tml"
      unfolding t2 placed_def by (rule remove_task_eq[OF ok fc])
    have step: "try_candidates recurse tml t idx pl (c # cs) =
                try_candidates recurse tml t idx (pl2[idx := - 1]) cs"
      using pt r(1) False rm by simp
    have "c0 \<noteq> c"
    proof
      assume "c0 = c"
      with good(2)[of "pl[idx := slot c]"] r(1) False show False by auto
    qed
    then have "c0 \<in> set cs" using Cons.prems(3) by simp
    then have "\<exists>tml' pl'. try_candidates recurse tml t idx (pl2[idx := - 1]) cs = Some (True, tml', pl')"
      using Cons.prems(1,2) by (intro Cons.IH) auto
    then show ?thesis unfolding step .
  qed
qed

lemma plan_ok_with_task_ids:
  assumes "plan_ok (num_slots tml) (occupied tml) ps"
    "\<forall>(u, r) \<in> set ps. is_fixed_task u \<or> {lo ..< hi} \<inter> {r ..< r + duration_slots u} = {}"
    "nat (num_slots tml) \<le> length (slots tml)"
  shows "plan_ok (num_slots tml) (occupied (with_task_ids tml lo hi v)) ps"
  using assms(1,2)
proof (induction ps)
  case Nil
  then show ?case by simp
next
  case (Cons p ps)
  obtain u r where p: "p = (u, r)" by (cases p)
  have "start_ok (num_slots tml) (occupied (with_task_ids tml lo hi v)) p"
  proof (cases "is_fixed_task u")
    case True
    then show ?thesis by (simp add: start_ok_def p)
  next
    case False
    have so: "start_ok (num_slots tml) (occupied tml) (u, r)" using Cons.prems(1) p by simp
    have dj: "{lo ..< hi} \<inter> {r ..< r + duration_slots u} = {}" using Cons.prems(2) p False by simp
    have "\<forall>i \<in> {r ..< r + duration_slots u}. \<not> occupied (with_task_ids tml lo hi v) i"
    proof
      fix i assume i: "i \<in> {r ..< r + duration_slots u}"
      then have "i \<in> {0 ..< num_slots tml}" "\<not> occupied tml i"
        using so False by (auto simp add: start_ok_def)
      note io = this
      have k: "nat i < length (slots tml)" "int (nat i) = i"
        using io(1) assms(3) by auto
      have "\<not> (lo \<le> i \<and> i < hi)" using dj i by auto
      then have "slots (with_task_ids tml lo hi v) ! nat i = slots tml ! nat i"
        using k by (simp only: nth_with_task_ids if_False)
      then show "\<not> occupied (with_task_ids tml lo hi v) i"
        using \<open>\<not> occupied tml i\<close> by (simp add: occupied_def slot_free_def)
    qed
    then show ?thesis using so False by (simp add: start_ok_def p)
  qed
  then show ?case using Cons by simp
qed

lemma backtrack_complete:
  assumes "timeline_ok tml" "\<forall>t \<in> set ts. int32 (duration_slots t)"
    "length ss = length ts" "plan_ok (num_slots tml) (occupied tml) (zip ts ss)"
  shows "\<exists>tml' pl'. backtrack_from tml ts idx pl = Some (True, tml', pl')"
  using assms
proof (induction ts arbitrary: tml ss idx pl)
  case Nil
  then show ?case by simp
next
  case (Cons t rest)
  obtain s ss' where ss: "ss = s # ss'" "length ss' = length rest"
    using Cons.prems(3) by (cases ss) auto
  have rest32: "\<forall>t \<in> set rest. int32 (duration_slots t)" using Cons.prems(2) by simp
  have pr: "plan_ok (num_slots tml) (occupied tml) (zip rest ss')"
    and so: "start_ok (num_slots tml) (occupied tml) (t, s)"
    and no: "\<forall>q \<in> set (zip rest ss'). no_overlap (t, s) q"
    using Cons.prems(4) ss by simp_all
  show ?case
  proof (cases "is_fixed_task t")
    case True
    then show ?thesis using Cons.IH[OF Cons.prems(1) rest32 ss(2) pr] by simp
  next
    case False
    let ?rec = "\<lambda>timeline1 placements1. backtrack_from timeline1 rest (Suc idx) placements1"
    let ?d = "duration_slots t"
    define s0 where "s0 = (if ?d \<le> 0 then 0 else s)"
    have n: "0 < num_slots tml" "nat (num_slots tml) \<le> length (slots tml)"
      using Cons.prems(1) by (simp_all add: timeline_ok_def)
    have so': "{s ..< s + ?d} \<subseteq> {0 ..< num_slots tml}"
      "deadline_slot t \<ge> 0 \<longrightarrow> s + ?d \<le> deadline_slot t"
      "\<forall>i \<in> {s ..< s + ?d}. \<not> occupied tml i"
      using so False by (simp_all add: start_ok_def)
    have f0: "candidate_start tml t s0"
    proof (cases "?d \<le> 0")
      case True
      then show ?thesis using n by (simp add: s0_def candidate_start_def)
    next
      case False
      then have "s \<in> {s ..< s + ?d}" "s + ?d - 1 \<in> {s ..< s + ?d}" by simp_all
      with so'(1) have "s \<in> {0 ..< num_slots tml}" "s + ?d - 1 \<in> {0 ..< num_slots tml}"
        by blast+
      then have b: "0 \<le> s" "s < num_slots tml" "s + ?d \<le> num_slots tml"
        by simp_all
      have "\<forall>i \<in> {s ..< s + ?d}. task_id (slots tml ! nat i) = -1 \<and> \<not> is_fixed (slots tml ! nat i)"
        using so'(3) by (simp add: occupied_def slot_free_def)
      then show ?thesis using False b so'(2) by (simp add: s0_def candidate_start_def)
    qed
    have t32: "int32 (duration_slots t)" using Cons.prems(2) by simp
    have img: "slot ` set (sorted_candidates tml t) = {s. candidate_start tml t s}"
      by (rule slot_sorted_candidates[OF Cons.prems(1) t32])
    then obtain c0 where c0: "c0 \<in> set (sorted_candidates tml t)" "slot c0 = s0"
      using f0 by (metis (mono_tags, lifting) imageE mem_Collect_eq)
    have feas: "\<forall>c \<in> set (sorted_candidates tml t). candidate_start tml t (slot c)"
      using img by blast
    have rec: "\<exists>b tml' pl'. ?rec (placed tml t (slot c)) pl1 = Some (b, tml', pl') \<and>
         (\<not> b \<longrightarrow> tml' = placed tml t (slot c))" for c pl1
    proof -
      have "timeline_ok (placed tml t (slot c))" using Cons.prems(1) by simp
      from backtrack_result[OF this rest32, of "Suc idx" pl1] show ?thesis by blast
    qed
    have pl0: "plan_ok (num_slots (placed tml t s0)) (occupied (placed tml t s0)) (zip rest ss')"
    proof -
      have "\<forall>(u, r) \<in> set (zip rest ss'). is_fixed_task u \<or>
              {s0 ..< s0 + ?d} \<inter> {r ..< r + duration_slots u} = {}"
      proof (cases "?d \<le> 0")
        case True
        then show ?thesis by auto
      next
        case d: False
        then have "s0 = s" by (simp add: s0_def)
        then show ?thesis using no False by (auto simp add: no_overlap_def)
      qed
      from plan_ok_with_task_ids[OF pr this n(2)] show ?thesis by (simp add: placed_def)
    qed
    have good: "\<exists>tml' pl'. ?rec (placed tml t (slot c0)) pl1 = Some (True, tml', pl')" for pl1
    proof -
      have "timeline_ok (placed tml t s0)" using Cons.prems(1) by simp
      from Cons.IH[OF this rest32 ss(2) pl0] show ?thesis unfolding c0(2) .
    qed
    from try_candidates_complete[where recurse = ?rec, OF Cons.prems(1) feas rec c0(1) good]
    show ?thesis using False by simp
  qed
qed

section \<open>The fixed slots and the call of the search\<close>

lemma timeline_init_7:
  "num_slots (timeline_init 7) = 336" "length (slots (timeline_init 7)) = 336"
  "success (timeline_init 7) = False" "error_message (timeline_init 7) = []"
  by (simp_all add: timeline_init_def wrap32_def SLOTS_PER_DAY_def MAX_SLOTS_def Let_def)

lemma nth_timeline_init_7:
  "k < 336 \<Longrightarrow> slots (timeline_init 7) ! k = timeslot_init (int k)"
  by (simp add: timeline_init_def wrap32_def SLOTS_PER_DAY_def MAX_SLOTS_def Let_def)

lemma timeline_ok_init: "timeline_ok (timeline_init 7)"
  by (simp add: timeline_ok_def timeline_init_7 MAX_SLOTS_def)

lemma apply_fixed_slots_Cons: "apply_fixed_slots tml (f # fs) = apply_fixed_slots (fix_slot tml f) fs"
  by (simp add: fix_slot_def Let_def)

lemma apply_fixed_slots_snoc:
  "apply_fixed_slots tml (fs @ [f]) = fix_slot (apply_fixed_slots tml fs) f"
proof (induction fs arbitrary: tml)
  case Nil
  show ?case by (simp add: fix_slot_def Let_def)
next
  case (Cons g fs)
  show ?case using Cons[of "fix_slot tml g"] by (simp only: append_Cons apply_fixed_slots_Cons)
qed

lemma fix_slot_fields [simp]:
  "num_slots (fix_slot tml f) = num_slots tml" "success (fix_slot tml f) = success tml"
  "error_message (fix_slot tml f) = error_message tml"
  "length (slots (fix_slot tml f)) = length (slots tml)"
  by (simp_all add: fix_slot_def)

lemma apply_fixed_slots_fields [simp]:
  "num_slots (apply_fixed_slots tml fs) = num_slots tml"
  "success (apply_fixed_slots tml fs) = success tml"
  "error_message (apply_fixed_slots tml fs) = error_message tml"
  "length (slots (apply_fixed_slots tml fs)) = length (slots tml)"
  by (induction fs rule: rev_induct) (simp_all add: apply_fixed_slots_snoc)

lemma timeline_ok_apply_fixed [simp]:
  "timeline_ok (apply_fixed_slots tml fs) = timeline_ok tml"
  by (simp add: timeline_ok_def)

text \<open>A slot shows the last descriptor that names it.\<close>

lemma nth_apply_fixed_slots:
  assumes "k < length (slots tml)" "int k < num_slots tml"
  shows "slots (apply_fixed_slots tml fs) ! k =
           (case find (\<lambda>f. slot_index f = int k) (rev fs) of
              None \<Rightarrow> slots tml ! k
            | Some f \<Rightarrow> (slots tml ! k)\<lparr>task_id := task_id f, is_fixed := True\<rparr>)"
proof (induction fs rule: rev_induct)
  case Nil
  show ?case by simp
next
  case (snoc f fs)
  let ?a = "apply_fixed_slots tml fs"
  show ?case
  proof (cases "slot_index f = int k")
    case True
    then have "slots (fix_slot ?a f) ! k = (slots ?a ! k)\<lparr>task_id := task_id f, is_fixed := True\<rparr>"
      using assms by (simp add: fix_slot_def)
    then show ?thesis using True snoc
      by (simp add: apply_fixed_slots_snoc split: option.splits)
  next
    case False
    then have "nat (slot_index f) \<noteq> k \<or> \<not> (slot_index f \<ge> 0)" by auto
    then have "slots (fix_slot ?a f) ! k = slots ?a ! k"
      using assms by (auto simp add: fix_slot_def)
    then show ?thesis using False snoc by (simp add: apply_fixed_slots_snoc)
  qed
qed

lemma find_None_image: "find (\<lambda>f. slot_index f = i) (rev fs) = None \<longleftrightarrow> i \<notin> slot_index ` set fs"
  by (auto simp add: find_None_iff)

lemma slot_free_fixed_timeline:
  assumes "k < 336"
  shows "slot_free (fixed_timeline fixed_slots num_fixed) k \<longleftrightarrow>
         int k \<notin> slot_index ` set (fixed_descriptors fixed_slots num_fixed)"
proof -
  let ?fs = "fixed_descriptors fixed_slots num_fixed"
  have n: "slots (apply_fixed_slots (timeline_init 7) ?fs) ! k =
           (case find (\<lambda>f. slot_index f = int k) (rev ?fs) of
              None \<Rightarrow> slots (timeline_init 7) ! k
            | Some f \<Rightarrow> (slots (timeline_init 7) ! k)\<lparr>task_id := task_id f, is_fixed := True\<rparr>)"
    using assms by (intro nth_apply_fixed_slots) (simp_all add: timeline_init_7)
  show ?thesis
  proof (cases "find (\<lambda>f. slot_index f = int k) (rev ?fs)")
    case None
    then show ?thesis using n assms find_None_image[of "int k" ?fs]
      by (simp add: slot_free_def fixed_timeline_def nth_timeline_init_7 timeslot_init_def)
  next
    case (Some f)
    then show ?thesis using n find_None_image[of "int k" ?fs]
      by (simp add: slot_free_def fixed_timeline_def)
  qed
qed

lemma fixed_slots_applied_eq:
  assumes "case fixed_slots of None \<Rightarrow> True | Some fs \<Rightarrow> nat num_fixed \<le> length fs"
  shows "fixed_slots_applied (timeline_init 7) fixed_slots num_fixed =
         Inr (fixed_timeline fixed_slots num_fixed)"
  using assms
  by (auto simp add: fixed_slots_applied_def fixed_timeline_def fixed_descriptors_def
      read_array_def split: option.splits)

lemma timeline_ok_fixed_timeline: "timeline_ok (fixed_timeline fixed_slots num_fixed)"
  by (simp add: fixed_timeline_def timeline_ok_init)

lemma fixed_timeline_fields [simp]:
  "num_slots (fixed_timeline fixed_slots num_fixed) = 336"
  "length (slots (fixed_timeline fixed_slots num_fixed)) = 336"
  "success (fixed_timeline fixed_slots num_fixed) = False"
  "error_message (fixed_timeline fixed_slots num_fixed) = []"
  by (simp_all add: fixed_timeline_def timeline_init_7)

text \<open>What \<open>optimize_schedule\<close> returns, from what the search returns.\<close>

lemma search_tasks_mset:
  "qsort_permutes qsort \<Longrightarrow> mset (search_tasks qsort tasks num_tasks) = mset (input_tasks tasks num_tasks)"
  by (simp add: search_tasks_def sorted_tasks_of_def qsort_permutes_def)

lemma search_tasks_int32:
  assumes "inputs_ok qsort tasks num_tasks fixed_slots num_fixed"
  shows "\<forall>t \<in> set (search_tasks qsort tasks num_tasks). int32 (duration_slots t)"
proof -
  have "set (search_tasks qsort tasks num_tasks) = set (input_tasks tasks num_tasks)"
    using assms search_tasks_mset[THEN mset_eq_setD] by (simp add: inputs_ok_def)
  then show ?thesis using assms by (simp add: inputs_ok_def task_int32_def)
qed

lemma optimize_schedule_trivial:
  assumes "inputs_ok qsort tasks num_tasks fixed_slots num_fixed" "timeline_alloc al"
    "0 \<le> num_tasks" "num_tasks \<le> MAX_TASKS" "tasks = None \<or> num_tasks = 0"
  shows "optimize_schedule qsort al tasks num_tasks fixed_slots num_fixed =
         Inr ((fixed_timeline fixed_slots num_fixed)\<lparr>success := True\<rparr>)"
  using assms fixed_slots_applied_eq[where fixed_slots = fixed_slots and num_fixed = num_fixed]
  by (auto simp add: optimize_schedule_def timeline_create_def inputs_ok_def split: option.splits)

lemma length_search_tasks:
  "qsort_permutes qsort \<Longrightarrow>
   length (search_tasks qsort tasks num_tasks) = length (input_tasks tasks num_tasks)"
  using search_tasks_mset[THEN mset_eq_length] by simp

text \<open>
  The search that \<open>optimize_schedule\<close> starts, on the tasks it reads. Without a task
  array there is nothing to search in.
\<close>

lemma run_search_eq:
  assumes "inputs_ok qsort tasks num_tasks fixed_slots num_fixed"
  shows "run_search qsort tml (input_tasks tasks num_tasks) num_tasks =
         (if tasks = None \<and> 0 < num_tasks then None
          else backtrack_from tml (search_tasks qsort tasks num_tasks) 0
                 (replicate (nat num_tasks) (- 1)))"
proof (cases "tasks = None \<and> 0 < num_tasks")
  case True
  then have "input_tasks tasks num_tasks = []" by (simp add: input_tasks_def)
  then have "length (search_tasks qsort tasks num_tasks) = 0"
    using assms length_search_tasks[of qsort tasks num_tasks] by (simp add: inputs_ok_def)
  then have "sorted_tasks_of qsort (input_tasks tasks num_tasks) = []"
    by (simp add: search_tasks_def)
  then show ?thesis using True
    by (simp add: run_search_def) (subst backtrack.simps, simp)
next
  case False
  let ?sorted = "search_tasks qsort tasks num_tasks"
  have "length (input_tasks tasks num_tasks) = nat num_tasks"
    using assms False by (auto simp add: inputs_ok_def input_tasks_def split: option.splits)
  then have len: "length ?sorted = nat num_tasks"
    using assms length_search_tasks[of qsort tasks num_tasks] by (simp add: inputs_ok_def)
  then have "num_tasks \<le> int (length ?sorted)" by simp
  from backtrack_from_eq[OF _ this, of 0 tml "replicate (nat num_tasks) (- 1)"] len
  have "backtrack tml ?sorted num_tasks 0 (replicate (nat num_tasks) (- 1)) =
        backtrack_from tml ?sorted 0 (replicate (nat num_tasks) (- 1))"
    by simp
  then have "run_search qsort tml (input_tasks tasks num_tasks) num_tasks =
        backtrack_from tml ?sorted 0 (replicate (nat num_tasks) (- 1))"
    by (simp add: run_search_def search_tasks_def)
  then show ?thesis by (simp only: False if_False)
qed

lemma optimize_schedule_search:
  assumes "inputs_ok qsort tasks num_tasks fixed_slots num_fixed" "timeline_alloc al"
    "task_array_alloc al" "placements_alloc al"
    "0 < num_tasks" "num_tasks \<le> MAX_TASKS" "tasks \<noteq> None"
  shows "\<exists>found timeline' placements.
           backtrack_from (fixed_timeline fixed_slots num_fixed) (search_tasks qsort tasks num_tasks)
             0 (replicate (nat num_tasks) (- 1)) = Some (found, timeline', placements) \<and>
           optimize_schedule qsort al tasks num_tasks fixed_slots num_fixed =
             Inr (if found then timeline'\<lparr>success := True\<rparr>
                  else timeline'\<lparr>success := False,
                         error_message := snprintf MAX_ERROR_LEN NO_SOLUTION_message\<rparr>)"
proof -
  obtain ts where ts: "tasks = Some ts" using assms(7) by auto
  have rd: "nat num_tasks \<le> length ts" using assms(1) ts by (simp add: inputs_ok_def)
  have fx: "fixed_slots_applied (timeline_init 7) fixed_slots num_fixed =
         Inr (fixed_timeline fixed_slots num_fixed)"
    using assms(1) by (intro fixed_slots_applied_eq) (simp add: inputs_ok_def)
  have st: "sorted_tasks_of qsort (take (nat num_tasks) ts) = search_tasks qsort tasks num_tasks"
    by (simp add: search_tasks_def input_tasks_def ts)
  from backtrack_result[OF timeline_ok_fixed_timeline search_tasks_int32[OF assms(1)],
      where idx = 0 and pl = "replicate (nat num_tasks) (- 1)"]
  obtain b tml' pl' where
    bt: "backtrack_from (fixed_timeline fixed_slots num_fixed) (search_tasks qsort tasks num_tasks)
             0 (replicate (nat num_tasks) (- 1)) = Some (b, tml', pl')"
    by blast
  have "optimize_schedule qsort al tasks num_tasks fixed_slots num_fixed =
             Inr (if b then tml'\<lparr>success := True\<rparr>
                  else tml'\<lparr>success := False,
                         error_message := snprintf MAX_ERROR_LEN NO_SOLUTION_message\<rparr>)"
    using assms(2-6) ts rd fx bt st run_search_eq[OF assms(1), of "fixed_timeline fixed_slots num_fixed"]
    by (simp add: optimize_schedule_def timeline_create_def task_array_create_def
        read_array_def input_tasks_def)
  with bt show ?thesis by blast
qed

lemma plan_ok_cong:
  assumes "\<forall>i \<in> {0 ..< n}. bl i = bl' i"
  shows "plan_ok n bl ps = plan_ok n bl' ps"
proof -
  have "start_ok n bl p = start_ok n bl' p" for p
  proof (cases p)
    case (Pair t s)
    have "{s ..< s + duration_slots t} \<subseteq> {0 ..< n} \<Longrightarrow>
          (\<forall>i \<in> {s ..< s + duration_slots t}. \<not> bl i) = (\<forall>i \<in> {s ..< s + duration_slots t}. \<not> bl' i)"
      using assms by (meson subsetD)
    then show ?thesis unfolding Pair start_ok_def by auto
  qed
  then show ?thesis by (induction ps) simp_all
qed

lemma search_finds_assignment:
  assumes ok: "inputs_ok qsort tasks num_tasks fixed_slots num_fixed"
    and len: "length starts = length (input_tasks tasks num_tasks)"
    and plan: "plan_ok 336 (\<lambda>i. i \<in> slot_index ` set (fixed_descriptors fixed_slots num_fixed))
                 (zip (input_tasks tasks num_tasks) starts)"
    and arr: "tasks \<noteq> None"
  shows "\<exists>tml' pl'. run_search qsort (fixed_timeline fixed_slots num_fixed)
            (input_tasks tasks num_tasks) num_tasks = Some (True, tml', pl')"
proof -
  let ?tml = "fixed_timeline fixed_slots num_fixed"
  let ?ts = "input_tasks tasks num_tasks"
  let ?sorted = "search_tasks qsort tasks num_tasks"
  have "\<forall>i \<in> {0 ..< 336}. (i \<in> slot_index ` set (fixed_descriptors fixed_slots num_fixed)) = occupied ?tml i"
  proof
    fix i :: int assume "i \<in> {0 ..< 336}"
    then have "nat i < 336" "int (nat i) = i" by auto
    with slot_free_fixed_timeline[of "nat i" fixed_slots num_fixed]
    show "(i \<in> slot_index ` set (fixed_descriptors fixed_slots num_fixed)) = occupied ?tml i"
      by (simp add: occupied_def)
  qed
  from plan_ok_cong[OF this] plan
  have p1: "plan_ok 336 (occupied ?tml) (zip ?ts starts)" by simp
  have "mset ?sorted = mset (map fst (zip ?ts starts))"
    using ok len search_tasks_mset[of qsort tasks num_tasks] by (simp add: inputs_ok_def)
  from realign[OF this] obtain ps' where
    ps': "map fst ps' = ?sorted" "mset ps' = mset (zip ?ts starts)" by blast
  have z: "zip ?sorted (map snd ps') = ps'" using ps'(1) by (metis zip_map_fst_snd)
  have "plan_ok 336 (occupied ?tml) ps'" using plan_ok_mset[OF ps'(2)] p1 by simp
  then have "plan_ok (num_slots ?tml) (occupied ?tml) (zip ?sorted (map snd ps'))"
    using z by simp
  moreover have "length (map snd ps') = length ?sorted" using ps'(1) by (metis length_map)
  ultimately have "\<exists>tml' pl'. backtrack_from ?tml ?sorted 0 (replicate (nat num_tasks) (- 1)) =
      Some (True, tml', pl')"
    using backtrack_complete[OF timeline_ok_fixed_timeline[of fixed_slots num_fixed]
        search_tasks_int32[OF ok]]
    by blast
  moreover have "run_search qsort ?tml ?ts num_tasks =
      backtrack_from ?tml ?sorted 0 (replicate (nat num_tasks) (- 1))"
    using arr by (auto simp add: run_search_eq[OF ok])
  ultimately show ?thesis by simp
qed


lemma length_input_tasks:
  assumes "inputs_ok qsort tasks num_tasks fixed_slots num_fixed"
  shows "length (input_tasks tasks num_tasks) \<le> nat num_tasks"
  by (simp add: input_tasks_def split: option.splits)

lemma optimize_schedule_found:
  assumes "inputs_ok qsort tasks num_tasks fixed_slots num_fixed"
    and "timeline_alloc al" and "task_array_alloc al" and "placements_alloc al"
    and "0 \<le> num_tasks" and "num_tasks \<le> MAX_TASKS"
    and "run_search qsort (fixed_timeline fixed_slots num_fixed)
           (input_tasks tasks num_tasks) num_tasks = Some (True, timeline', placements)"
  shows "optimize_schedule qsort al tasks num_tasks fixed_slots num_fixed =
           Inr (timeline'\<lparr>success := True\<rparr>)"
proof (cases "tasks = None \<or> num_tasks = 0")
  case True
  then have "input_tasks tasks num_tasks = []"
    by (auto simp add: input_tasks_def split: option.splits)
  then have "mset (search_tasks qsort tasks num_tasks) = {#}"
    using assms(1) search_tasks_mset[of qsort tasks num_tasks] by (simp add: inputs_ok_def)
  then have "search_tasks qsort tasks num_tasks = []" by simp
  then have "timeline' = fixed_timeline fixed_slots num_fixed"
    using assms(7) unfolding run_search_eq[OF assms(1)] by (simp split: if_splits)
  then show ?thesis using optimize_schedule_trivial[OF assms(1,2,5,6) True] by simp
next
  case False
  then have nz: "0 < num_tasks" "tasks \<noteq> None" using assms(5) by auto
  from optimize_schedule_search[OF assms(1-4) nz(1) assms(6) nz(2)] assms(7) nz(2)
  show ?thesis unfolding run_search_eq[OF assms(1)] by auto
qed

lemma search_success_plan:
  assumes "inputs_ok qsort tasks num_tasks fixed_slots num_fixed"
    and "run_search qsort (fixed_timeline fixed_slots num_fixed)
           (input_tasks tasks num_tasks) num_tasks = Some (True, timeline', placements)"
  shows "\<exists>ss. length ss = length (search_tasks qsort tasks num_tasks) \<and>
           place_plan (fixed_timeline fixed_slots num_fixed)
             (zip (search_tasks qsort tasks num_tasks) ss) = Some timeline' \<and>
           (\<forall>k < length (search_tasks qsort tasks num_tasks).
              \<not> is_fixed_task (search_tasks qsort tasks num_tasks ! k) \<longrightarrow> placements ! k = ss ! k)"
proof -
  let ?sorted = "search_tasks qsort tasks num_tasks"
  have len: "length ?sorted \<le> nat num_tasks"
    using length_search_tasks[of qsort tasks num_tasks] length_input_tasks[OF assms(1)] assms(1)
    by (simp add: inputs_ok_def)
  from backtrack_result[OF timeline_ok_fixed_timeline[of fixed_slots num_fixed]
      search_tasks_int32[OF assms(1)],
      where idx = 0 and pl = "replicate (nat num_tasks) (- 1)"] assms(2)
  obtain ss where
    ss: "length ss = length ?sorted"
        "place_plan (fixed_timeline fixed_slots num_fixed) (zip ?sorted ss) = Some timeline'"
        "\<forall>k < length ?sorted. \<not> is_fixed_task (?sorted ! k) \<longrightarrow>
           0 + k < length (replicate (nat num_tasks) (- 1 :: int)) \<longrightarrow> placements ! (0 + k) = ss ! k"
    unfolding run_search_eq[OF assms(1)] by (auto split: if_splits)
  have "\<forall>k < length ?sorted. \<not> is_fixed_task (?sorted ! k) \<longrightarrow> placements ! k = ss ! k"
    using ss(3) len by simp
  with ss(1,2) show ?thesis by blast
qed


lemma apply_fixed_slots_in_range:
  assumes "num_slots tml = n"
  shows "apply_fixed_slots tml (filter (\<lambda>f. 0 \<le> slot_index f \<and> slot_index f < n) fs) =
         apply_fixed_slots tml fs"
  using assms
proof (induction fs arbitrary: tml)
  case Nil
  show ?case by simp
next
  case (Cons f fs)
  let ?P = "\<lambda>f. 0 \<le> slot_index f \<and> slot_index f < n"
  have ih: "apply_fixed_slots (fix_slot tml f) (filter ?P fs) = apply_fixed_slots (fix_slot tml f) fs"
    using Cons.IH[of "fix_slot tml f"] Cons.prems by simp
  show ?case
  proof (cases "?P f")
    case True
    then have "filter ?P (f # fs) = f # filter ?P fs" by simp
    then show ?thesis using ih by (simp only: apply_fixed_slots_Cons)
  next
    case False
    then have "fix_slot tml f = tml" using Cons.prems by (auto simp add: fix_slot_def)
    moreover have "filter ?P (f # fs) = filter ?P fs" using False by simp
    ultimately show ?thesis using ih by (simp only: apply_fixed_slots_Cons)
  qed
qed

lemma optimize_schedule_keeps_occupied:
  assumes "inputs_ok qsort tasks num_tasks fixed_slots num_fixed"
    and "timeline_alloc al" and "0 \<le> num_tasks" and "num_tasks \<le> MAX_TASKS"
  shows "\<exists>timeline. optimize_schedule qsort al tasks num_tasks fixed_slots num_fixed = Inr timeline \<and>
           (\<forall>k < 336. \<not> slot_free (fixed_timeline fixed_slots num_fixed) k \<longrightarrow>
              slots timeline ! k = slots (fixed_timeline fixed_slots num_fixed) ! k)"
proof -
  let ?tml = "fixed_timeline fixed_slots num_fixed"
  have fx: "fixed_slots_applied (timeline_init 7) fixed_slots num_fixed = Inr ?tml"
    using assms(1) by (intro fixed_slots_applied_eq) (simp add: inputs_ok_def)
  show ?thesis
  proof (cases "tasks = None \<or> num_tasks = 0")
    case True
    from optimize_schedule_trivial[OF assms(1,2,3,4) True] show ?thesis by simp
  next
    case False
    then obtain ts where ts: "tasks = Some ts" and nz: "0 < num_tasks" using assms(3) by auto
    show ?thesis
    proof (cases "task_array_alloc al \<and> placements_alloc al")
      case False
      have rd: "nat num_tasks \<le> length ts" using assms(1) ts by (simp add: inputs_ok_def)
      have "optimize_schedule qsort al tasks num_tasks fixed_slots num_fixed =
              Inr (?tml\<lparr>success := False,
                     error_message := snprintf MAX_ERROR_LEN ''Memory allocation failed''\<rparr>)"
        using False assms(2,3,4) nz ts fx rd
        by (auto simp add: optimize_schedule_def timeline_create_def task_array_create_def
            read_array_def)
      then show ?thesis by simp
    next
      case True
      from optimize_schedule_search[OF assms(1,2) _ _ nz assms(4)] True ts
      obtain found tml' pl' where
        s: "backtrack_from ?tml (search_tasks qsort tasks num_tasks)
              0 (replicate (nat num_tasks) (- 1)) = Some (found, tml', pl')"
           "optimize_schedule qsort al tasks num_tasks fixed_slots num_fixed =
             Inr (if found then tml'\<lparr>success := True\<rparr>
                  else tml'\<lparr>success := False,
                         error_message := snprintf MAX_ERROR_LEN NO_SOLUTION_message\<rparr>)"
        by auto
      have "\<forall>k < 336. \<not> slot_free ?tml k \<longrightarrow> slots tml' ! k = slots ?tml ! k"
      proof (cases found)
        case False
        from backtrack_result[OF timeline_ok_fixed_timeline[of fixed_slots num_fixed]
            search_tasks_int32[OF assms(1)],
            where idx = 0 and pl = "replicate (nat num_tasks) (- 1)"] s(1) False
        have "tml' = ?tml" by auto
        then show ?thesis by simp
      next
        case True
        from backtrack_result[OF timeline_ok_fixed_timeline[of fixed_slots num_fixed]
            search_tasks_int32[OF assms(1)],
            where idx = 0 and pl = "replicate (nat num_tasks) (- 1)"] s(1) True
        obtain ss where "place_plan ?tml (zip (search_tasks qsort tasks num_tasks) ss) = Some tml'"
          by auto
        from place_plan_frame[OF this] show ?thesis by simp
      qed
      then show ?thesis using s(2) by simp
    qed
  qed
qed


lemma fixed_timeline_task_id:
  assumes "k < 336"
  shows "task_id (slots (fixed_timeline fixed_slots num_fixed) ! k) = - 1 \<or>
         (\<exists>f \<in> set (fixed_descriptors fixed_slots num_fixed).
            task_id (slots (fixed_timeline fixed_slots num_fixed) ! k) = task_id f)"
proof -
  let ?ds = "fixed_descriptors fixed_slots num_fixed"
  have n: "slots (fixed_timeline fixed_slots num_fixed) ! k =
           (case find (\<lambda>f. slot_index f = int k) (rev ?ds) of
              None \<Rightarrow> slots (timeline_init 7) ! k
            | Some f \<Rightarrow> (slots (timeline_init 7) ! k)\<lparr>task_id := task_id f, is_fixed := True\<rparr>)"
    unfolding fixed_timeline_def using assms
    by (intro nth_apply_fixed_slots) (simp_all add: timeline_init_7)
  show ?thesis
  proof (cases "find (\<lambda>f. slot_index f = int k) (rev ?ds)")
    case None
    then show ?thesis using n assms by (simp add: nth_timeline_init_7 timeslot_init_def)
  next
    case (Some f)
    then have "f \<in> set (rev ?ds)" by (metis find_Some_iff nth_mem)
    then have "f \<in> set ?ds" by simp
    then show ?thesis using n Some by auto
  qed
qed

lemma placed_runs:
  assumes plan: "place_plan tml0 (zip ts ss) = Some tml'" and len: "length ss = length ts"
    and ok: "timeline_ok tml0"
    and dist: "distinct (map id_task ts)"
    and ids: "\<forall>t \<in> set ts. id_task t \<noteq> - 1 \<and>
                (\<forall>k < nat (num_slots tml0). task_id (slots tml0 ! k) \<noteq> id_task t)"
    and k: "k < length ts" "\<not> is_fixed_task (ts ! k)"
  shows "occupies_run tml' (ts ! k) (ss ! k)"
proof -
  let ?t = "ts ! k" and ?s = "ss ! k"
  have fr: "num_slots tml' = num_slots tml0" "length (slots tml') = length (slots tml0)"
    using place_plan_frame[OF plan] by simp_all
  have nl: "nat (num_slots tml0) \<le> length (slots tml0)" using ok by (simp add: timeline_ok_def)
  have mem: "(?t, ?s) \<in> set (zip ts ss)" using k len by (auto simp add: set_zip)
  from place_plan_feasible[OF plan mem k(2)]
  have b: "0 \<le> ?s" "?s + duration_slots ?t \<le> num_slots tml0" by simp_all
  have tk: "?t \<in> set ts" using k by simp
  have "(task_id (slots tml' ! j) = id_task ?t) = (?s \<le> int j \<and> int j < ?s + duration_slots ?t)"
    if j: "j < nat (num_slots tml0)" for j
  proof
    assume r: "?s \<le> int j \<and> int j < ?s + duration_slots ?t"
    have "task_id (slots tml' ! nat (int j)) = id_task ?t"
      using place_plan_ids[OF plan mem k(2) _ nl, of "int j"] ids tk r by blast
    then show "task_id (slots tml' ! j) = id_task ?t" by simp
  next
    assume e: "task_id (slots tml' ! j) = id_task ?t"
    have jl: "j < length (slots tml0)" using j nl by simp
    from place_plan_changed[OF plan jl]
    show "?s \<le> int j \<and> int j < ?s + duration_slots ?t"
    proof
      assume a: "task_id (slots tml' ! j) = task_id (slots tml0 ! j)"
      have "task_id (slots tml0 ! j) \<noteq> id_task ?t" using ids tk j by blast
      then show ?thesis using e a by simp
    next
      assume "\<exists>(u, r) \<in> set (zip ts ss). \<not> is_fixed_task u \<and> r \<le> int j \<and>
                int j < r + duration_slots u \<and> task_id (slots tml' ! j) = id_task u"
      then obtain u r where
        ur: "(u, r) \<in> set (zip ts ss)" "r \<le> int j" "int j < r + duration_slots u"
            "task_id (slots tml' ! j) = id_task u"
        by auto
      from ur(1) obtain k' where k': "k' < length ts" "ts ! k' = u" "ss ! k' = r"
        using len by (auto simp add: set_zip)
      have "map id_task ts ! k' = map id_task ts ! k"
        using k' k(1) ur(4) e by simp
      moreover have "k' < length (map id_task ts)" "k < length (map id_task ts)"
        using k' k(1) by simp_all
      ultimately have "k' = k" using dist nth_eq_iff_index_eq by blast
      then show ?thesis using ur(2,3) k' by simp
    qed
  qed
  then show ?thesis using b fr by (simp add: occupies_run_def)
qed

lemma occupies_run_disjoint:
  assumes "occupies_run tml t s" "occupies_run tml u r" "id_task t \<noteq> id_task u"
  shows "{s ..< s + duration_slots t} \<inter> {r ..< r + duration_slots u} = {}"
proof (rule ccontr)
  assume "{s ..< s + duration_slots t} \<inter> {r ..< r + duration_slots u} \<noteq> {}"
  then obtain i where "i \<in> {s ..< s + duration_slots t} \<inter> {r ..< r + duration_slots u}"
    by blast
  then have i: "s \<le> i" "i < s + duration_slots t" "r \<le> i" "i < r + duration_slots u"
    by simp_all
  have b: "0 \<le> i" "i < num_slots tml" using assms(1) i by (auto simp add: occupies_run_def)
  then have n: "nat i < nat (num_slots tml)" "int (nat i) = i" by auto
  have "task_id (slots tml ! nat i) = id_task t"
    using assms(1) n i unfolding occupies_run_def by auto
  moreover have "task_id (slots tml ! nat i) = id_task u"
    using assms(2) n i unfolding occupies_run_def by auto
  ultimately show False using assms(3) by simp
qed

lemma occupies_run_success [simp]:
  "occupies_run (tml\<lparr>success := b\<rparr>) t s = occupies_run tml t s"
  by (simp add: occupies_run_def)


lemma optimize_schedule_succeeds:
  assumes "inputs_ok qsort tasks num_tasks fixed_slots num_fixed"
    and "timeline_alloc al" and "task_array_alloc al" and "placements_alloc al"
    and "0 \<le> num_tasks" and "num_tasks \<le> MAX_TASKS"
    and "length starts = length (input_tasks tasks num_tasks)"
    and "plan_ok 336 (\<lambda>i. i \<in> slot_index ` set (fixed_descriptors fixed_slots num_fixed))
           (zip (input_tasks tasks num_tasks) starts)"
  shows "\<exists>timeline. optimize_schedule qsort al tasks num_tasks fixed_slots num_fixed = Inr timeline \<and>
           success timeline"
proof (cases "tasks = None \<or> num_tasks = 0")
  case True
  from optimize_schedule_trivial[OF assms(1,2,5,6) True] show ?thesis by simp
next
  case False
  then have nz: "0 < num_tasks" "tasks \<noteq> None" using assms(5) by auto
  from search_finds_assignment[OF assms(1,7,8) nz(2)] nz(2) obtain tml' pl' where
    s: "backtrack_from (fixed_timeline fixed_slots num_fixed) (search_tasks qsort tasks num_tasks)
          0 (replicate (nat num_tasks) (- 1)) = Some (True, tml', pl')"
    unfolding run_search_eq[OF assms(1)] by auto
  from optimize_schedule_search[OF assms(1-4) nz(1) assms(6) nz(2)] s
  show ?thesis by auto
qed

section \<open>The library sort of the examples\<close>

lemma mset_insert_before [simp]: "mset (insert_before cmp x xs) = add_mset x (mset xs)"
  by (induction xs) auto

lemma mset_qsort_stable [simp]: "mset (qsort_stable cmp xs) = mset xs"
  by (induction xs) (simp_all add: qsort_stable_def)

lemma qsort_stable_permutes: "qsort_permutes qsort_stable"
  by (simp add: qsort_permutes_def)

lemma set_insert_before [simp]: "set (insert_before cmp x xs) = insert x (set xs)"
  by (induction xs) auto


lemma set_qsort_stable [simp]: "set (qsort_stable cmp xs) = set xs"
  by (rule mset_eq_setD) simp








section \<open>C1: completeness of the search\<close>

text \<open>
  C1. Take a call of \<open>optimize_schedule\<close> with \<open>0 \<le> num_tasks \<le> 500\<close> whose arguments
  are well formed (\<open>inputs_ok\<close>) and whose allocations succeed. If start slots can be
  assigned to the tasks so that the range \<open>[start, start + duration_slots)\<close> of every
  non-fixed task lies within \<open>[0, num_slots)\<close>, ends by the deadline when
  \<open>deadline_slot \<ge> 0\<close>, contains the index of no fixed-slot descriptor and is disjoint
  from the ranges of the other non-fixed tasks, then the call returns a timeline with
  \<open>success = true\<close>.
\<close>

theorem optimize_schedule_complete:
  assumes "inputs_ok qsort tasks num_tasks fixed_slots num_fixed"
    and "timeline_alloc al" and "task_array_alloc al" and "placements_alloc al"
    and "0 \<le> num_tasks" and "num_tasks \<le> MAX_TASKS"
    and "length starts = length (input_tasks tasks num_tasks)"
    and "plan_ok (num_slots (timeline_init 7))
           (\<lambda>i. i \<in> slot_index ` set (fixed_descriptors fixed_slots num_fixed))
           (zip (input_tasks tasks num_tasks) starts)"
  shows "\<exists>timeline. optimize_schedule qsort al tasks num_tasks fixed_slots num_fixed = Inr timeline \<and>
           success timeline"
  using optimize_schedule_succeeds[OF assms(1-7)] assms(8) by (simp add: timeline_init_7)

lemma example_inputs_ok:
  "inputs_ok qsort_stable (Some [study_task 1 2 5, study_task 2 2 5]) 2
     (Some [fixed_slot 0 (- 1)]) 1"
  by (simp add: inputs_ok_def qsort_stable_permutes input_tasks_def study_task_def
      task_init_def task_int32_def int32_def PRIORITY_REGULAR_STUDY_def ENERGY_ANY_def)

lemma example_plan_ok:
  "plan_ok 336 (\<lambda>i. i \<in> slot_index ` set (fixed_descriptors (Some [fixed_slot 0 (- 1)]) 1))
     (zip (input_tasks (Some [study_task 1 2 5, study_task 2 2 5]) 2) [1, 3])"
  by (simp add: input_tasks_def fixed_descriptors_def start_ok_def no_overlap_def
      study_task_def task_init_def fixed_slot_def timeslot_init_def)

theorem optimize_schedule_complete_witness:
  "inputs_ok qsort_stable (Some [study_task 1 2 5, study_task 2 2 5]) 2
     (Some [fixed_slot 0 (- 1)]) 1 \<and>
   plan_ok (num_slots (timeline_init 7))
     (\<lambda>i. i \<in> slot_index ` set (fixed_descriptors (Some [fixed_slot 0 (- 1)]) 1))
     (zip (input_tasks (Some [study_task 1 2 5, study_task 2 2 5]) 2) [1, 3]) \<and>
   (\<exists>timeline. optimize_schedule qsort_stable all_allocated
      (Some [study_task 1 2 5, study_task 2 2 5]) 2 (Some [fixed_slot 0 (- 1)]) 1 = Inr timeline \<and>
      success timeline)"
proof -
  have p: "plan_ok (num_slots (timeline_init 7))
     (\<lambda>i. i \<in> slot_index ` set (fixed_descriptors (Some [fixed_slot 0 (- 1)]) 1))
     (zip (input_tasks (Some [study_task 1 2 5, study_task 2 2 5]) 2) [1, 3])"
    using example_plan_ok by (simp add: timeline_init_7)
  have "\<exists>timeline. optimize_schedule qsort_stable all_allocated
      (Some [study_task 1 2 5, study_task 2 2 5]) 2 (Some [fixed_slot 0 (- 1)]) 1 = Inr timeline \<and>
      success timeline"
    by (rule optimize_schedule_complete[OF example_inputs_ok _ _ _ _ _ _ p])
       (simp_all add: all_allocated_def MAX_TASKS_def input_tasks_def)
  with example_inputs_ok p show ?thesis by blast
qed

section \<open>C2: no overlap and contiguity\<close>

text \<open>
  C2, with the ids of the tasks also different from the empty sentinel \<open>-1\<close>. Take a
  call with well-formed arguments and successful allocations whose tasks have pairwise
  distinct ids, none of them \<open>-1\<close> and none the \<open>task_id\<close> of a fixed-slot descriptor.
  If the returned timeline has \<open>success = true\<close>, there is a start slot for every
  non-fixed task such that the slots bearing the task's id are exactly the
  \<open>duration_slots\<close> slots from that start on, within the timeline (so the slots next to
  the run bear other ids or \<open>-1\<close>), and the ranges of two different non-fixed tasks are
  disjoint.
\<close>

theorem placed_tasks_contiguous:
  assumes "inputs_ok qsort tasks num_tasks fixed_slots num_fixed"
    and "timeline_alloc al" and "task_array_alloc al" and "placements_alloc al"
    and "0 \<le> num_tasks" and "num_tasks \<le> MAX_TASKS"
    and "distinct (map id_task (input_tasks tasks num_tasks))"
    and "\<forall>t \<in> set (input_tasks tasks num_tasks). id_task t \<noteq> - 1 \<and>
           (\<forall>f \<in> set (fixed_descriptors fixed_slots num_fixed). task_id f \<noteq> id_task t)"
    and "optimize_schedule qsort al tasks num_tasks fixed_slots num_fixed = Inr timeline"
    and "success timeline"
  shows "\<exists>start. \<forall>t \<in> set (input_tasks tasks num_tasks). \<not> is_fixed_task t \<longrightarrow>
           occupies_run timeline t (start t) \<and>
           (\<forall>u \<in> set (input_tasks tasks num_tasks). \<not> is_fixed_task u \<and> u \<noteq> t \<longrightarrow>
              {start t ..< start t + duration_slots t} \<inter>
              {start u ..< start u + duration_slots u} = {})"
proof (cases "tasks = None \<or> num_tasks = 0")
  case True
  then have "input_tasks tasks num_tasks = []"
    by (auto simp add: input_tasks_def split: option.splits)
  then show ?thesis by simp
next
  case False
  let ?tml = "fixed_timeline fixed_slots num_fixed"
  let ?in = "input_tasks tasks num_tasks"
  let ?sorted = "search_tasks qsort tasks num_tasks"
  from False have nz: "0 < num_tasks" "tasks \<noteq> None" using assms(5) by auto
  from optimize_schedule_search[OF assms(1-4) nz(1) assms(6) nz(2)] assms(9,10)
  obtain tml' pl' where
    s: "backtrack_from ?tml ?sorted 0 (replicate (nat num_tasks) (- 1)) = Some (True, tml', pl')"
       "timeline = tml'\<lparr>success := True\<rparr>"
    by (auto split: if_splits)
  have "run_search qsort ?tml ?in num_tasks = Some (True, tml', pl')"
    using s(1) nz(2) by (auto simp add: run_search_eq[OF assms(1)])
  from search_success_plan[OF assms(1) this] obtain ss where
    ss: "length ss = length ?sorted" "place_plan ?tml (zip ?sorted ss) = Some tml'"
    by blast
  have perm: "mset ?sorted = mset ?in"
    using assms(1) search_tasks_mset[of qsort tasks num_tasks] by (simp add: inputs_ok_def)
  then have seteq: "set ?sorted = set ?in" by (rule mset_eq_setD)
  have "mset (map id_task ?sorted) = mset (map id_task ?in)" using perm by simp
  then have dist: "distinct (map id_task ?sorted)"
    using assms(7) by (metis mset_eq_imp_distinct_iff)
  then have dts: "distinct ?sorted" by (simp add: distinct_map)
  have ids: "\<forall>t \<in> set ?sorted. id_task t \<noteq> - 1 \<and>
                (\<forall>k < nat (num_slots ?tml). task_id (slots ?tml ! k) \<noteq> id_task t)"
  proof (intro ballI conjI allI impI)
    fix t assume "t \<in> set ?sorted"
    then have t: "t \<in> set ?in" using seteq by simp
    then show "id_task t \<noteq> - 1" using assms(8) by blast
    fix k assume "k < nat (num_slots ?tml)"
    then have "k < 336" by simp
    from fixed_timeline_task_id[OF this, of fixed_slots num_fixed] assms(8) t
    show "task_id (slots ?tml ! k) \<noteq> id_task t" by auto
  qed
  define start where "start = (\<lambda>t. case map_of (zip ?sorted ss) t of Some s \<Rightarrow> s | None \<Rightarrow> 0)"
  have st: "start (?sorted ! k) = ss ! k" if "k < length ?sorted" for k
    using map_of_zip_nth[OF ss(1)[symmetric] dts, of k] that ss(1) by (simp add: start_def)
  have run: "occupies_run timeline t (start t)" if "t \<in> set ?in" "\<not> is_fixed_task t" for t
  proof -
    from that(1) seteq have "t \<in> set ?sorted" by simp
    then obtain k where k: "k < length ?sorted" "?sorted ! k = t"
      unfolding in_set_conv_nth by blast
    from placed_runs[OF ss(2,1) timeline_ok_fixed_timeline dist ids k(1)] that(2) k(2)
    have "occupies_run tml' t (ss ! k)" by simp
    then show ?thesis using st[OF k(1)] k(2) s(2) by simp
  qed
  have "\<forall>t \<in> set ?in. \<not> is_fixed_task t \<longrightarrow>
           occupies_run timeline t (start t) \<and>
           (\<forall>u \<in> set ?in. \<not> is_fixed_task u \<and> u \<noteq> t \<longrightarrow>
              {start t ..< start t + duration_slots t} \<inter>
              {start u ..< start u + duration_slots u} = {})"
  proof (intro ballI impI conjI)
    fix t assume t: "t \<in> set ?in" "\<not> is_fixed_task t"
    then show "occupies_run timeline t (start t)" by (rule run)
    fix u assume u: "u \<in> set ?in" "\<not> is_fixed_task u \<and> u \<noteq> t"
    have "id_task t \<noteq> id_task u"
      using assms(7) t(1) u by (metis distinct_map inj_onD)
    from occupies_run_disjoint[OF run[OF t] run[OF u(1)] this] u(2)
    show "{start t ..< start t + duration_slots t} \<inter>
              {start u ..< start u + duration_slots u} = {}" by simp
  qed
  then show ?thesis by blast
qed


lemma example_single_inputs_ok: "inputs_ok qsort_stable (Some [study_task 1 2 2]) 1 None 0"
  by (simp add: inputs_ok_def qsort_stable_permutes input_tasks_def study_task_def
      task_init_def task_int32_def int32_def PRIORITY_REGULAR_STUDY_def ENERGY_ANY_def)

theorem placed_tasks_contiguous_witness:
  "inputs_ok qsort_stable (Some [study_task 1 2 2]) 1 None 0 \<and>
   distinct (map id_task (input_tasks (Some [study_task 1 2 2]) 1)) \<and>
   id_task (study_task 1 2 2) \<noteq> - 1 \<and>
   (\<exists>timeline. optimize_schedule qsort_stable all_allocated (Some [study_task 1 2 2]) 1 None 0 =
        Inr timeline \<and> success timeline \<and>
      (\<exists>s. occupies_run timeline (study_task 1 2 2) s))"
proof -
  let ?t = "study_task 1 2 2"
  have it: "input_tasks (Some [?t]) 1 = [?t]" by (simp add: input_tasks_def)
  have f: "\<not> is_fixed_task ?t" "id_task ?t = 1"
    by (simp_all add: study_task_def task_init_def)
  have "plan_ok 336 (\<lambda>i. i \<in> slot_index ` set (fixed_descriptors None 0))
           (zip (input_tasks (Some [?t]) 1) [0])"
    unfolding it by (simp add: fixed_descriptors_def start_ok_def study_task_def task_init_def)
  from optimize_schedule_succeeds[OF example_single_inputs_ok _ _ _ _ _ _ this, of all_allocated]
  obtain timeline where
    t: "optimize_schedule qsort_stable all_allocated (Some [?t]) 1 None 0 = Inr timeline"
       "success timeline"
    by (auto simp add: all_allocated_def MAX_TASKS_def it)
  from placed_tasks_contiguous[OF example_single_inputs_ok _ _ _ _ _ _ _ t]
  have "\<exists>start. occupies_run timeline ?t (start ?t)"
    by (simp add: all_allocated_def MAX_TASKS_def it f fixed_descriptors_def)
  then have "\<exists>s. occupies_run timeline ?t s" by blast
  with t example_single_inputs_ok f show ?thesis by (auto simp add: it)
qed


text \<open>
  For C2 as written, without the condition on the sentinel: a single task with id \<open>-1\<close>
  and two slots is placed with success, and its id is then borne by slots 0 and 2 alike,
  so not by one run of two slots.
\<close>

lemma example_sentinel_result:
  "map_sum id (\<lambda>timeline. (success timeline, num_slots timeline,
       task_id (slots timeline ! 0), task_id (slots timeline ! 2)))
     (optimize_schedule qsort_stable all_allocated (Some [study_task (- 1) 2 2]) 1 None 0) =
   Inr (True, 336, - 1, - 1)"
  by code_simp

theorem sentinel_id_counterexample:
  "distinct (map id_task (input_tasks (Some [study_task (- 1) 2 2]) 1)) \<and>
   fixed_descriptors None 0 = [] \<and>
   (\<exists>timeline. optimize_schedule qsort_stable all_allocated (Some [study_task (- 1) 2 2]) 1 None 0 =
        Inr timeline \<and> success timeline \<and>
      \<not> (\<exists>s. occupies_run timeline (study_task (- 1) 2 2) s))"
proof -
  let ?t = "study_task (- 1) 2 2"
  obtain timeline where
    t: "optimize_schedule qsort_stable all_allocated (Some [?t]) 1 None 0 = Inr timeline"
       "success timeline" "num_slots timeline = 336"
       "task_id (slots timeline ! 0) = - 1" "task_id (slots timeline ! 2) = - 1"
    using example_sentinel_result
    by (cases "optimize_schedule qsort_stable all_allocated (Some [?t]) 1 None 0") auto
  have f: "id_task ?t = - 1" "duration_slots ?t = 2" by (simp_all add: study_task_def)
  have "\<not> occupies_run timeline ?t s" for s
  proof
    assume o: "occupies_run timeline ?t s"
    then have a: "\<forall>k < 336. (task_id (slots timeline ! k) = - 1) = (s \<le> int k \<and> int k < s + 2)"
      by (simp add: occupies_run_def t(3) f)
    from a[rule_format, of 0] t(4) have "s \<le> 0" by simp
    moreover from a[rule_format, of 2] t(5) have "2 < s + 2" by simp
    ultimately show False by simp
  qed
  then have "\<not> (\<exists>s. occupies_run timeline ?t s)" by blast
  with t(1,2) show ?thesis by (auto simp add: input_tasks_def fixed_descriptors_def)
qed


section \<open>C3: fixed slots\<close>

text \<open>
  C3. Take a call with \<open>0 \<le> num_tasks \<le> 500\<close>, well-formed arguments and an allocated
  timeline. Then \<open>optimize_schedule\<close> returns a timeline, and before the search the
  fixed-slot loop has produced \<open>fixed_timeline\<close>: a slot that no descriptor names is as
  \<open>timeline_init\<close> made it, and a slot \<open>k\<close> that a descriptor names has the \<open>task_id\<close> of
  the last descriptor with \<open>slot_index = k\<close> and \<open>is_fixed = true\<close>. Descriptors with an
  index outside \<open>[0, num_slots)\<close> change nothing and raise no error: the loop gives the
  same timeline without them. Every slot so fixed is the same in the returned timeline,
  whether the call succeeded, found no solution or could not allocate its working arrays.
\<close>

theorem fixed_slots_preserved:
  assumes "inputs_ok qsort tasks num_tasks fixed_slots num_fixed"
    and "timeline_alloc al" and "0 \<le> num_tasks" and "num_tasks \<le> MAX_TASKS"
  shows "\<exists>timeline.
           optimize_schedule qsort al tasks num_tasks fixed_slots num_fixed = Inr timeline \<and>
           fixed_slots_applied (timeline_init 7) fixed_slots num_fixed =
             Inr (fixed_timeline fixed_slots num_fixed) \<and>
           fixed_timeline fixed_slots num_fixed =
             apply_fixed_slots (timeline_init 7)
               (filter (\<lambda>f. 0 \<le> slot_index f \<and> slot_index f < num_slots (timeline_init 7))
                  (fixed_descriptors fixed_slots num_fixed)) \<and>
           (\<forall>k < 336.
              case find (\<lambda>f. slot_index f = int k) (rev (fixed_descriptors fixed_slots num_fixed)) of
                None \<Rightarrow> slots (fixed_timeline fixed_slots num_fixed) ! k = timeslot_init (int k)
              | Some f \<Rightarrow>
                  slots (fixed_timeline fixed_slots num_fixed) ! k =
                    (timeslot_init (int k))\<lparr>task_id := task_id f, is_fixed := True\<rparr> \<and>
                  slots timeline ! k = slots (fixed_timeline fixed_slots num_fixed) ! k)"
proof -
  let ?tml = "fixed_timeline fixed_slots num_fixed"
  let ?ds = "fixed_descriptors fixed_slots num_fixed"
  from optimize_schedule_keeps_occupied[OF assms] obtain timeline where
    t: "optimize_schedule qsort al tasks num_tasks fixed_slots num_fixed = Inr timeline"
       "\<forall>k < 336. \<not> slot_free ?tml k \<longrightarrow> slots timeline ! k = slots ?tml ! k"
    by blast
  have fx: "fixed_slots_applied (timeline_init 7) fixed_slots num_fixed = Inr ?tml"
    using assms(1) by (intro fixed_slots_applied_eq) (simp add: inputs_ok_def)
  have fl: "?tml = apply_fixed_slots (timeline_init 7)
               (filter (\<lambda>f. 0 \<le> slot_index f \<and> slot_index f < num_slots (timeline_init 7)) ?ds)"
    using apply_fixed_slots_in_range[OF refl, of "timeline_init 7" ?ds]
    by (simp add: fixed_timeline_def)
  have "case find (\<lambda>f. slot_index f = int k) (rev ?ds) of
                None \<Rightarrow> slots ?tml ! k = timeslot_init (int k)
              | Some f \<Rightarrow>
                  slots ?tml ! k = (timeslot_init (int k))\<lparr>task_id := task_id f, is_fixed := True\<rparr> \<and>
                  slots timeline ! k = slots ?tml ! k" if k: "k < 336" for k
  proof -
    have n: "slots ?tml ! k =
           (case find (\<lambda>f. slot_index f = int k) (rev ?ds) of
              None \<Rightarrow> slots (timeline_init 7) ! k
            | Some f \<Rightarrow> (slots (timeline_init 7) ! k)\<lparr>task_id := task_id f, is_fixed := True\<rparr>)"
      unfolding fixed_timeline_def using k
      by (intro nth_apply_fixed_slots) (simp_all add: timeline_init_7)
    show ?thesis
    proof (cases "find (\<lambda>f. slot_index f = int k) (rev ?ds)")
      case None
      then show ?thesis using n k by (simp add: nth_timeline_init_7)
    next
      case (Some f)
      then have e: "slots ?tml ! k = (timeslot_init (int k))\<lparr>task_id := task_id f, is_fixed := True\<rparr>"
        using n k by (simp add: nth_timeline_init_7)
      then have "\<not> slot_free ?tml k" by (simp add: slot_free_def)
      then show ?thesis using t(2) k e Some by simp
    qed
  qed
  with t(1) fx fl show ?thesis by blast
qed

lemma example_fixed_inputs_ok:
  "inputs_ok qsort_stable (Some [study_task 1 2 2])
     1 (Some [fixed_slot 0 7, fixed_slot 400 8, fixed_slot 0 9]) 3"
  by (simp add: inputs_ok_def qsort_stable_permutes input_tasks_def study_task_def
      task_init_def task_int32_def int32_def PRIORITY_REGULAR_STUDY_def ENERGY_ANY_def)

theorem fixed_slots_preserved_witness:
  "inputs_ok qsort_stable (Some [study_task 1 2 2])
     1 (Some [fixed_slot 0 7, fixed_slot 400 8, fixed_slot 0 9]) 3 \<and>
   (\<exists>timeline.
      optimize_schedule qsort_stable all_allocated (Some [study_task 1 2 2])
        1 (Some [fixed_slot 0 7, fixed_slot 400 8, fixed_slot 0 9]) 3 = Inr timeline \<and>
      slots timeline ! 0 = (timeslot_init 0)\<lparr>task_id := 9, is_fixed := True\<rparr>)"
proof -
  let ?fs = "Some [fixed_slot 0 7, fixed_slot 400 8, fixed_slot 0 9]"
  from fixed_slots_preserved[OF example_fixed_inputs_ok, of all_allocated]
  obtain timeline where
    t: "optimize_schedule qsort_stable all_allocated (Some [study_task 1 2 2]) 1 ?fs 3 = Inr timeline"
       "\<forall>k < 336.
              case find (\<lambda>f. slot_index f = int k) (rev (fixed_descriptors ?fs 3)) of
                None \<Rightarrow> slots (fixed_timeline ?fs 3) ! k = timeslot_init (int k)
              | Some f \<Rightarrow>
                  slots (fixed_timeline ?fs 3) ! k =
                    (timeslot_init (int k))\<lparr>task_id := task_id f, is_fixed := True\<rparr> \<and>
                  slots timeline ! k = slots (fixed_timeline ?fs 3) ! k"
    by (auto simp add: all_allocated_def MAX_TASKS_def)
  have "find (\<lambda>f. slot_index f = int 0) (rev (fixed_descriptors ?fs 3)) = Some (fixed_slot 0 9)"
    by (simp add: fixed_descriptors_def fixed_slot_def timeslot_init_def)
  with t(2)[rule_format, of 0]
  have "slots timeline ! 0 = (timeslot_init 0)\<lparr>task_id := 9, is_fixed := True\<rparr>"
    by (simp add: fixed_slot_def)
  with t(1) example_fixed_inputs_ok show ?thesis by blast
qed

text \<open>
  Without the bound on \<open>num_tasks\<close> the statement fails: for \<open>num_tasks = 501\<close> the
  failure timeline is returned before the descriptors are applied, and the slot that the
  descriptor names is neither fixed nor assigned.
\<close>

theorem fixed_slots_invalid_count_counterexample:
  "map_sum id (\<lambda>timeline. (success timeline, task_id (slots timeline ! 16),
       is_fixed (slots timeline ! 16)))
     (optimize_schedule qsort_stable all_allocated (Some (replicate 501 task_init)) 501
        (Some [fixed_slot 16 7]) 1) =
   Inr (False, - 1, False)"
  by code_simp


section \<open>C4: deadline compliance\<close>

text \<open>
  C4. When the search succeeds, \<open>optimize_schedule\<close> returns the timeline of the search
  with \<open>success = true\<close>, and for every non-fixed task, with \<open>start\<close> the start slot the
  search recorded for it in \<open>placements\<close>: the task lies within the timeline,
  \<open>start + duration_slots \<le> deadline_slot\<close> if \<open>deadline_slot \<ge> 0\<close>, and the slots from
  \<open>start\<close> on bear its id in the returned timeline (for an id other than the empty
  sentinel). A task with \<open>deadline_slot < 0\<close> can be placed wherever it fits within the
  timeline on free slots: the deadline imposes nothing.
\<close>

theorem deadline_compliance:
  assumes "inputs_ok qsort tasks num_tasks fixed_slots num_fixed"
    and "timeline_alloc al" and "task_array_alloc al" and "placements_alloc al"
    and "0 \<le> num_tasks" and "num_tasks \<le> MAX_TASKS"
    and "run_search qsort (fixed_timeline fixed_slots num_fixed)
           (input_tasks tasks num_tasks) num_tasks = Some (True, timeline', placements)"
  shows "optimize_schedule qsort al tasks num_tasks fixed_slots num_fixed =
           Inr (timeline'\<lparr>success := True\<rparr>) \<and>
         (\<forall>k < length (search_tasks qsort tasks num_tasks).
            let task = search_tasks qsort tasks num_tasks ! k; start = placements ! k
            in \<not> is_fixed_task task \<longrightarrow>
               0 \<le> start \<and> start + duration_slots task \<le> num_slots timeline' \<and>
               (deadline_slot task \<ge> 0 \<longrightarrow> start + duration_slots task \<le> deadline_slot task) \<and>
               (id_task task \<noteq> - 1 \<longrightarrow>
                  (\<forall>i \<in> {start ..< start + duration_slots task}.
                     task_id (slots timeline' ! nat i) = id_task task))) \<and>
         (\<forall>(timeline :: Timeline) (task :: Task) start_slot.
            timeline_ok timeline \<and> int32 (duration_slots task) \<and> deadline_slot task < 0 \<and>
            0 \<le> start_slot \<and> start_slot < num_slots timeline \<longrightarrow>
            can_place_task timeline task start_slot =
              (start_slot + duration_slots task \<le> num_slots timeline \<and>
               (\<forall>i \<in> {start_slot ..< start_slot + duration_slots task}.
                  task_id (slots timeline ! nat i) = - 1 \<and> \<not> is_fixed (slots timeline ! nat i))))"
proof (intro conjI allI impI)
  show "optimize_schedule qsort al tasks num_tasks fixed_slots num_fixed =
           Inr (timeline'\<lparr>success := True\<rparr>)"
    by (rule optimize_schedule_found[OF assms])
next
  fix k assume k: "k < length (search_tasks qsort tasks num_tasks)"
  let ?sorted = "search_tasks qsort tasks num_tasks"
  let ?tml = "fixed_timeline fixed_slots num_fixed"
  from search_success_plan[OF assms(1,7)] obtain ss where
    ss: "length ss = length ?sorted" "place_plan ?tml (zip ?sorted ss) = Some timeline'"
        "\<forall>k < length ?sorted. \<not> is_fixed_task (?sorted ! k) \<longrightarrow> placements ! k = ss ! k"
    by blast
  have n: "num_slots timeline' = num_slots ?tml" using place_plan_frame[OF ss(2)] by simp
  have "\<not> is_fixed_task (?sorted ! k) \<longrightarrow>
               0 \<le> placements ! k \<and> placements ! k + duration_slots (?sorted ! k) \<le> num_slots timeline' \<and>
               (deadline_slot (?sorted ! k) \<ge> 0 \<longrightarrow>
                  placements ! k + duration_slots (?sorted ! k) \<le> deadline_slot (?sorted ! k)) \<and>
               (id_task (?sorted ! k) \<noteq> - 1 \<longrightarrow>
                  (\<forall>i \<in> {placements ! k ..< placements ! k + duration_slots (?sorted ! k)}.
                     task_id (slots timeline' ! nat i) = id_task (?sorted ! k)))"
  proof
    assume nf: "\<not> is_fixed_task (?sorted ! k)"
    then have p: "placements ! k = ss ! k" using ss(3) k by simp
    have mem: "(?sorted ! k, ss ! k) \<in> set (zip ?sorted ss)"
      using k ss(1) by (auto simp add: set_zip)
    from place_plan_feasible[OF ss(2) mem nf]
    have a: "0 \<le> ss ! k" "ss ! k + duration_slots (?sorted ! k) \<le> num_slots ?tml"
      "deadline_slot (?sorted ! k) \<ge> 0 \<longrightarrow> ss ! k + duration_slots (?sorted ! k) \<le> deadline_slot (?sorted ! k)"
      by simp_all
    have b: "id_task (?sorted ! k) \<noteq> - 1 \<longrightarrow>
                  (\<forall>i \<in> {ss ! k ..< ss ! k + duration_slots (?sorted ! k)}.
                     task_id (slots timeline' ! nat i) = id_task (?sorted ! k))"
      using place_plan_ids[OF ss(2) mem nf] by simp
    show "0 \<le> placements ! k \<and> placements ! k + duration_slots (?sorted ! k) \<le> num_slots timeline' \<and>
               (deadline_slot (?sorted ! k) \<ge> 0 \<longrightarrow>
                  placements ! k + duration_slots (?sorted ! k) \<le> deadline_slot (?sorted ! k)) \<and>
               (id_task (?sorted ! k) \<noteq> - 1 \<longrightarrow>
                  (\<forall>i \<in> {placements ! k ..< placements ! k + duration_slots (?sorted ! k)}.
                     task_id (slots timeline' ! nat i) = id_task (?sorted ! k)))"
      unfolding p n using a b by blast
  qed
  then show "let task = ?sorted ! k; start = placements ! k
            in \<not> is_fixed_task task \<longrightarrow>
               0 \<le> start \<and> start + duration_slots task \<le> num_slots timeline' \<and>
               (deadline_slot task \<ge> 0 \<longrightarrow> start + duration_slots task \<le> deadline_slot task) \<and>
               (id_task task \<noteq> - 1 \<longrightarrow>
                  (\<forall>i \<in> {start ..< start + duration_slots task}.
                     task_id (slots timeline' ! nat i) = id_task task))"
    by (simp add: Let_def)
next
  fix timeline :: Timeline and task :: Task and start_slot :: int
  assume h: "timeline_ok timeline \<and> int32 (duration_slots task) \<and> deadline_slot task < 0 \<and>
            0 \<le> start_slot \<and> start_slot < num_slots timeline"
  then show "can_place_task timeline task start_slot =
              (start_slot + duration_slots task \<le> num_slots timeline \<and>
               (\<forall>i \<in> {start_slot ..< start_slot + duration_slots task}.
                  task_id (slots timeline ! nat i) = - 1 \<and> \<not> is_fixed (slots timeline ! nat i)))"
    using can_place_task_iff[of timeline task start_slot] by (auto simp add: candidate_start_def)
qed


lemma example_search_found:
  "run_search qsort_stable (fixed_timeline None 0) (input_tasks (Some [study_task 1 2 2]) 1) 1 =
     Some (True, placed (fixed_timeline None 0) (study_task 1 2 2) 0, [0])"
  by code_simp

theorem deadline_compliance_witness:
  "inputs_ok qsort_stable (Some [study_task 1 2 2]) 1 None 0 \<and>
   run_search qsort_stable (fixed_timeline None 0) (input_tasks (Some [study_task 1 2 2]) 1) 1 =
     Some (True, placed (fixed_timeline None 0) (study_task 1 2 2) 0, [0]) \<and>
   optimize_schedule qsort_stable all_allocated (Some [study_task 1 2 2]) 1 None 0 =
     Inr ((placed (fixed_timeline None 0) (study_task 1 2 2) 0)\<lparr>success := True\<rparr>) \<and>
   [0] ! 0 + duration_slots (study_task 1 2 2) \<le> deadline_slot (study_task 1 2 2) \<and>
   task_id (slots (placed (fixed_timeline None 0) (study_task 1 2 2) 0) ! 1) = 1"
proof -
  have ok: "inputs_ok qsort_stable (Some [study_task 1 2 2]) 1 None 0"
    by (simp add: inputs_ok_def qsort_stable_permutes input_tasks_def study_task_def
      task_init_def task_int32_def int32_def PRIORITY_REGULAR_STUDY_def ENERGY_ANY_def)
  have st: "search_tasks qsort_stable (Some [study_task 1 2 2]) 1 = [study_task 1 2 2]"
    by (simp add: search_tasks_def sorted_tasks_of_def input_tasks_def qsort_stable_def)
  have f: "\<not> is_fixed_task (study_task 1 2 2)" "id_task (study_task 1 2 2) = 1"
    "duration_slots (study_task 1 2 2) = 2" "deadline_slot (study_task 1 2 2) = 2"
    by (simp_all add: study_task_def task_init_def)
  from deadline_compliance[OF ok _ _ _ _ _ example_search_found, of all_allocated]
  have r: "optimize_schedule qsort_stable all_allocated (Some [study_task 1 2 2]) 1 None 0 =
     Inr ((placed (fixed_timeline None 0) (study_task 1 2 2) 0)\<lparr>success := True\<rparr>)"
    "[0] ! 0 + duration_slots (study_task 1 2 2) \<le> deadline_slot (study_task 1 2 2)"
    "\<forall>i \<in> {0 ..< 2 :: int}.
       task_id (slots (placed (fixed_timeline None 0) (study_task 1 2 2) 0) ! nat i) = 1"
    by (simp_all add: all_allocated_def MAX_TASKS_def st f Let_def)
  have "(1 :: int) \<in> {0 ..< 2}" by simp
  with r(3) have "task_id (slots (placed (fixed_timeline None 0) (study_task 1 2 2) 0) ! nat 1) = 1"
    by blast
  then have "task_id (slots (placed (fixed_timeline None 0) (study_task 1 2 2) 0) ! 1) = 1"
    by simp
  with r(1,2) have "optimize_schedule qsort_stable all_allocated (Some [study_task 1 2 2]) 1 None 0 =
     Inr ((placed (fixed_timeline None 0) (study_task 1 2 2) 0)\<lparr>success := True\<rparr>) \<and>
   [0] ! 0 + duration_slots (study_task 1 2 2) \<le> deadline_slot (study_task 1 2 2) \<and>
   task_id (slots (placed (fixed_timeline None 0) (study_task 1 2 2) 0) ! 1) = 1"
    by blast
  with ok example_search_found show ?thesis by blast
qed


section \<open>C5: the no-solution outcome\<close>

text \<open>
  C5. Take a call with \<open>0 \<le> num_tasks \<le> 500\<close>, well-formed arguments and successful
  allocations, in which the search returns \<open>false\<close>. Then \<open>optimize_schedule\<close> returns a
  timeline with \<open>success = false\<close> whose \<open>error_message\<close> begins with \<open>NO_SOLUTION:\<close>, and
  its slots are the slots as the fixed-slot loop left them: every \<open>task_id\<close> and
  \<open>is_fixed\<close> has the value it had right after the fixed slots were applied.
\<close>

theorem no_solution_outcome:
  assumes "inputs_ok qsort tasks num_tasks fixed_slots num_fixed"
    and "timeline_alloc al" and "task_array_alloc al" and "placements_alloc al"
    and "0 \<le> num_tasks" and "num_tasks \<le> MAX_TASKS"
    and "map_option fst (run_search qsort (fixed_timeline fixed_slots num_fixed)
           (input_tasks tasks num_tasks) num_tasks) = Some False"
  shows "\<exists>timeline. optimize_schedule qsort al tasks num_tasks fixed_slots num_fixed = Inr timeline \<and>
           \<not> success timeline \<and>
           take 12 (error_message timeline) = ''NO_SOLUTION:'' \<and>
           fixed_slots_applied (timeline_init 7) fixed_slots num_fixed =
             Inr (fixed_timeline fixed_slots num_fixed) \<and>
           slots timeline = slots (fixed_timeline fixed_slots num_fixed) \<and>
           num_slots timeline = num_slots (fixed_timeline fixed_slots num_fixed)"
proof -
  let ?tml = "fixed_timeline fixed_slots num_fixed"
  have ne: "input_tasks tasks num_tasks \<noteq> []"
  proof
    assume "input_tasks tasks num_tasks = []"
    then have "mset (search_tasks qsort tasks num_tasks) = {#}"
      using assms(1) search_tasks_mset[of qsort tasks num_tasks] by (simp add: inputs_ok_def)
    then have "search_tasks qsort tasks num_tasks = []" by simp
    then show False using assms(7) unfolding run_search_eq[OF assms(1)]
      by (simp split: if_splits)
  qed
  then have nz: "0 < num_tasks" "tasks \<noteq> None"
    using assms(5) by (auto simp add: input_tasks_def split: option.splits)
  from optimize_schedule_search[OF assms(1-4) nz(1) assms(6) nz(2)]
  obtain found tml' pl' where
    s: "backtrack_from ?tml (search_tasks qsort tasks num_tasks)
          0 (replicate (nat num_tasks) (- 1)) = Some (found, tml', pl')"
       "optimize_schedule qsort al tasks num_tasks fixed_slots num_fixed =
             Inr (if found then tml'\<lparr>success := True\<rparr>
                  else tml'\<lparr>success := False,
                         error_message := snprintf MAX_ERROR_LEN NO_SOLUTION_message\<rparr>)"
    by blast
  have nf: "\<not> found" using assms(7) s(1) nz(2) unfolding run_search_eq[OF assms(1)] by simp
  from backtrack_result[OF timeline_ok_fixed_timeline[of fixed_slots num_fixed]
      search_tasks_int32[OF assms(1)],
      where idx = 0 and pl = "replicate (nat num_tasks) (- 1)"] s(1) nf
  have "tml' = ?tml" by auto
  moreover have "fixed_slots_applied (timeline_init 7) fixed_slots num_fixed = Inr ?tml"
    using assms(1) by (intro fixed_slots_applied_eq) (simp add: inputs_ok_def)
  moreover have "take 12 (snprintf MAX_ERROR_LEN NO_SOLUTION_message) = ''NO_SOLUTION:''"
    by (simp add: snprintf_def MAX_ERROR_LEN_def NO_SOLUTION_message_def)
  ultimately show ?thesis using s(2) nf by simp
qed

lemma example_no_solution:
  "map_option fst (run_search qsort_stable (fixed_timeline None 0)
     (input_tasks (Some [study_task 1 10 5]) 1) 1) = Some False"
  by code_simp

theorem no_solution_outcome_witness:
  "inputs_ok qsort_stable (Some [study_task 1 10 5]) 1 None 0 \<and>
   map_option fst (run_search qsort_stable (fixed_timeline None 0)
     (input_tasks (Some [study_task 1 10 5]) 1) 1) = Some False \<and>
   (\<exists>timeline. optimize_schedule qsort_stable all_allocated (Some [study_task 1 10 5]) 1 None 0 =
        Inr timeline \<and>
      \<not> success timeline \<and> take 12 (error_message timeline) = ''NO_SOLUTION:'' \<and>
      slots timeline = slots (fixed_timeline None 0))"
proof -
  have ok: "inputs_ok qsort_stable (Some [study_task 1 10 5]) 1 None 0"
    by (simp add: inputs_ok_def qsort_stable_permutes input_tasks_def study_task_def
      task_init_def task_int32_def int32_def PRIORITY_REGULAR_STUDY_def ENERGY_ANY_def)
  from no_solution_outcome[OF ok _ _ _ _ _ example_no_solution, of all_allocated]
  have "\<exists>timeline. optimize_schedule qsort_stable all_allocated (Some [study_task 1 10 5]) 1 None 0 =
        Inr timeline \<and>
      \<not> success timeline \<and> take 12 (error_message timeline) = ''NO_SOLUTION:'' \<and>
      slots timeline = slots (fixed_timeline None 0)"
    by (auto simp add: all_allocated_def MAX_TASKS_def)
  with ok example_no_solution show ?thesis by blast
qed


section \<open>C6: the order of the tasks\<close>





section \<open>C7: candidate ordering\<close>





lemma example_search:
  "map_option (\<lambda>r. (fst r, snd (snd r)))
     (backtrack (timeline_init 7) [study_task 1 1 18, study_task 2 17 17] 2 0 [- 1, - 1]) =
   Some (True, [17, 0])"
  by code_simp



section \<open>C9: the output document\<close>

text \<open>
  \<open>parse_string\<close> gives back a string that \<open>json_escape_string\<close> has encoded when all
  its bytes are at least 32 or among the seven characters with a two-character escape
  (and it fits the destination).
\<close>

lemma parse_string_loop_escape:
  assumes "\<forall>c \<in> set s. two_char_escaped c \<or> 32 \<le> (of_char c :: nat)"
    and "max_len = 0 \<or> length dest + length s < max_len - 1"
  shows "parse_string_loop (concat (map json_escape_char s) @ CHR 0x22 # rest) dest max_len =
         Inr (rest, dest @ s)"
  using assms
proof (induction s arbitrary: dest)
  case Nil
  then show ?case by simp
next
  case (Cons c s)
  have room: "dest_has_room (length dest) max_len" using Cons.prems(2)
    by (auto simp add: dest_has_room_def)
  have ih: "parse_string_loop (concat (map json_escape_char s) @ CHR 0x22 # rest) (dest @ [c]) max_len =
         Inr (rest, (dest @ [c]) @ s)"
    using Cons.prems by (intro Cons.IH) auto
  show ?case
  proof (cases "two_char_escaped c")
    case True
    then have "json_escape_char c = [CHR 0x5C, CHR 0x22] \<and> c = CHR 0x22 \<or>
               json_escape_char c = [CHR 0x5C, CHR 0x5C] \<and> c = CHR 0x5C \<or>
               json_escape_char c = [CHR 0x5C, CHR ''b''] \<and> c = CHR 0x08 \<or>
               json_escape_char c = [CHR 0x5C, CHR ''f''] \<and> c = CHR 0x0C \<or>
               json_escape_char c = [CHR 0x5C, CHR ''n''] \<and> c = CHR 0x0A \<or>
               json_escape_char c = [CHR 0x5C, CHR ''r''] \<and> c = CHR 0x0D \<or>
               json_escape_char c = [CHR 0x5C, CHR ''t''] \<and> c = CHR 0x09"
      by (auto simp add: two_char_escaped_def json_escape_char_def)
    then obtain e where e: "json_escape_char c = [CHR 0x5C, e]" "unescape_char e = c"
      by (auto simp add: unescape_char_def)
    show ?thesis using room ih by (simp add: e)
  next
    case False
    then have p: "json_escape_char c = [c]" "c \<noteq> CHR 0x22" "c \<noteq> CHR 0x5C"
      using Cons.prems(1) by (auto simp add: two_char_escaped_def json_escape_char_def)
    show ?thesis using room ih by (simp add: p)
  qed
qed

lemma parse_string_inverts_two_char_escapes:
  assumes "\<forall>c \<in> set s. two_char_escaped c \<or> 32 \<le> (of_char c :: nat)"
    and "max_len = 0 \<or> length s < max_len - 1"
  shows "parse_string (json_escape_string (Some s) @ rest) max_len = Inr (rest, s)"
  using parse_string_loop_escape[OF assms(1), of max_len "[]" rest] assms(2)
  by (simp add: parse_string_def json_escape_string_def skip_whitespace_def isspace_def)


text \<open>
  C9 fails on the code. \<open>json_escape_string\<close> writes a byte below 32 that has no
  two-character escape as \<open>\u00XX\<close>, and \<open>parse_string\<close> has no case for \<open>\u\<close>: it
  stores the character \<open>u\<close> and reads the four digits as text. For the string of the
  single byte 1 the encoding is \<open>"\u0001"\<close>, which parses to the five characters
  \<open>u0001\<close>; the same happens to the \<open>error_message\<close> of an emitted document when it is
  read back with \<open>find_key\<close> and \<open>parse_string\<close>.
\<close>

theorem escape_not_inverted_by_parse_string:
  "json_escape_string (Some [CHR 0x01]) =
     [CHR 0x22, CHR 0x5C, CHR ''u'', CHR ''0'', CHR ''0'', CHR ''0'', CHR ''1'', CHR 0x22] \<and>
   parse_string (json_escape_string (Some [CHR 0x01])) MAX_ERROR_LEN = Inr ([], ''u0001'') \<and>
   map_option (\<lambda>document. map_option (\<lambda>value. map_sum id snd (parse_string value MAX_ERROR_LEN))
        (find_key document ''error_message''))
     (timeline_to_json (Some \<lparr>slots = [timeslot_init 0], num_slots = 1, success = False,
        error_message = [CHR 0x01]\<rparr>)) =
     Some (Some (Inr ''u0001''))"
  by code_simp


section \<open>C10: slot accesses stay in bounds\<close>

text \<open>
  C10. From a well-formed timeline (\<open>num_slots \<le> 336\<close> slots in use, all within the
  array) and a task array that holds \<open>num_tasks\<close> tasks, the search never reaches the
  out-of-bounds branch of a slot write, whatever the tasks. Every candidate start \<open>c\<close>
  that \<open>backtrack\<close> hands to \<open>place_task\<close> and \<open>remove_task\<close> satisfies \<open>0 \<le> c\<close> and
  \<open>c + duration_slots \<le> num_slots\<close>, so the indices written, from \<open>c\<close> to
  \<open>c + duration_slots - 1\<close>, lie in \<open>[0, num_slots)\<close>, and placing there and removing
  again succeed.
\<close>

theorem search_in_bounds:
  assumes "timeline_ok timeline" and "\<forall>t \<in> set tasks. int32 (duration_slots t)"
    and "0 \<le> task_index" and "num_tasks \<le> int (length tasks)"
  shows "backtrack timeline tasks num_tasks task_index placements \<noteq> None \<and>
         num_slots timeline \<le> 336 \<and> nat (num_slots timeline) \<le> length (slots timeline) \<and>
         (\<forall>t \<in> set tasks. \<forall>c \<in> set (sorted_candidates timeline t).
            0 \<le> slot c \<and> slot c + duration_slots t \<le> num_slots timeline \<and>
            (\<exists>timeline1. place_task timeline t (slot c) = Some timeline1 \<and>
               remove_task timeline1 t (slot c) = Some timeline))"
proof -
  let ?rest = "drop (nat task_index) (take (nat num_tasks) tasks)"
  have "\<forall>t \<in> set ?rest. int32 (duration_slots t)"
    using assms(2) by (meson in_set_dropD in_set_takeD)
  from backtrack_result[OF assms(1) this, of "nat task_index" placements]
  have "backtrack timeline tasks num_tasks task_index placements \<noteq> None"
    unfolding backtrack_from_eq[OF assms(3,4)] by auto
  moreover have "0 \<le> slot c \<and> slot c + duration_slots t \<le> num_slots timeline \<and>
            (\<exists>timeline1. place_task timeline t (slot c) = Some timeline1 \<and>
               remove_task timeline1 t (slot c) = Some timeline)"
    if "t \<in> set tasks" "c \<in> set (sorted_candidates timeline t)" for t c
  proof -
    have "int32 (duration_slots t)" using assms(2) that(1) by simp
    from slot_sorted_candidates[OF assms(1) this] that(2)
    have f: "candidate_start timeline t (slot c)" by blast
    then show ?thesis
      using place_task_eq[OF assms(1) f] remove_task_eq[OF assms(1) f]
      by (simp add: candidate_start_def)
  qed
  ultimately show ?thesis using assms(1) by (simp add: timeline_ok_def MAX_SLOTS_def)
qed

theorem search_in_bounds_witness:
  "timeline_ok (timeline_init 7) \<and> int32 (duration_slots (study_task 1 2 10)) \<and>
   backtrack (timeline_init 7) [study_task 1 2 10] 1 0 [- 1] \<noteq> None \<and>
   num_slots (timeline_init 7) \<le> 336 \<and>
   nat (num_slots (timeline_init 7)) \<le> length (slots (timeline_init 7))"
proof -
  have d: "int32 (duration_slots (study_task 1 2 10))"
    by (simp add: study_task_def int32_def)
  then have "\<forall>t \<in> set [study_task 1 2 10]. int32 (duration_slots t)" by simp
  from search_in_bounds[OF timeline_ok_init this, of 0 1 "[- 1]"] timeline_ok_init d
  show ?thesis by simp
qed

end
